theory Spec2Isabelle
  imports Main "HOL-Library.Word"
begin

section \<open>The Go notions jobpool.go relies on\<close>

text \<open>
  \<^verbatim>\<open>int32\<close> counters are 32-bit words read in two's complement (\<open>sint\<close>);
  \<^verbatim>\<open>atomic.AddInt32\<close> wraps around.
\<close>

type_synonym int32 = "32 word"

text \<open>The only error values of the package come from \<^verbatim>\<open>fmt.Errorf\<close>; \<^verbatim>\<open>nil\<close> is \<open>None\<close>.\<close>

datatype error = Errorf string

text \<open>What a goroutine of the package can panic with.\<close>

datatype panic =
    NilPointerDereference
  | SendOnClosedChannel
  | MakechanSizeOutOfRange
  | JobPanic string

fun panic_text :: "panic \<Rightarrow> string" where
  "panic_text NilPointerDereference =
     ''runtime error: invalid memory address or nil pointer dereference''"
| "panic_text SendOnClosedChannel = ''send on closed channel''"
| "panic_text MakechanSizeOutOfRange = ''makechan: size out of range''"
| "panic_text (JobPanic m) = m"

text \<open>
  A statement or call either completes with a value, panics, or blocks: its goroutine
  waits for another goroutine to act (a receive nobody has answered, a send on a full
  channel, a send nobody takes) or runs a job that never returns.
\<close>

datatype 'a result = Ok 'a | Panicked panic | Blocked

fun panic_of :: "'a result \<Rightarrow> panic option" where
  "panic_of (Panicked r) = Some r"
| "panic_of _ = None"

text \<open>
  A channel: what is buffered, the buffer size given to \<^verbatim>\<open>make\<close> (0 for an
  unbuffered channel) and whether \<^verbatim>\<open>close\<close> was called.
\<close>

record 'a chan =
  buf :: "'a list"
  cap :: nat
  closed :: bool

definition make_chan :: "int \<Rightarrow> panic + 'a chan" where
  "make_chan n =
     (if n < 0 then Inl MakechanSizeOutOfRange
      else Inr \<lparr>buf = [], cap = nat n, closed = False\<rparr>)"

definition close_chan :: "'a chan \<Rightarrow> 'a chan" where
  "close_chan c = c\<lparr>closed := True\<rparr>"

text \<open>
  \<^verbatim>\<open>container/list\<close>: \<^verbatim>\<open>Front\<close> is \<^verbatim>\<open>nil\<close> on an empty list, and
  \<^verbatim>\<open>Remove(nil)\<close> dereferences the nil element. The package only removes the element
  \<^verbatim>\<open>Front\<close> has just returned, which is the first of the list.
\<close>

definition list_Front :: "'a list \<Rightarrow> 'a option" where
  "list_Front l = (case l of [] \<Rightarrow> None | x # _ \<Rightarrow> Some x)"

definition list_Remove :: "'a list \<Rightarrow> 'a option \<Rightarrow> ('a list) result" where
  "list_Remove l e = (case e of None \<Rightarrow> Panicked NilPointerDereference | Some _ \<Rightarrow> Ok (tl l))"

definition list_PushBack :: "'a list \<Rightarrow> 'a \<Rightarrow> 'a list" where
  "list_PushBack l v = l @ [v]"

section \<open>The data of the package\<close>

text \<open>
  \<^verbatim>\<open>queueJob\<close> and \<^verbatim>\<open>dequeueJob\<close>. A request's private result channel is
  named by a number; \<open>'j\<close> is the caller's \<^verbatim>\<open>Jobber\<close>.
\<close>

record 'j queueJob =
  Jobber :: 'j
  Priority :: bool
  ResultChannel :: nat

record dequeueRequest =
  ResultChannel_dq :: nat

record 'j JobPool =
  priorityJobQueue :: "'j queueJob list"
  normalJobQueue :: "'j queueJob list"
  queueChannel :: "'j queueJob chan"
  dequeueChannel :: "dequeueRequest chan"
  shutdownQueueChannel :: "string chan"
  jobChannel :: "string chan"
  shutdownJobChannel :: "unit chan"
  shutdownWaitGroup :: int
  queuedJobs :: int32
  activeRoutines :: int32
  queueCapacity :: int32

text \<open>
  What the goroutines do, in the order they do it: what is visible outside the
  \<^verbatim>\<open>JobPool\<close> struct (sends on a request's result channel, lines written to stdout,
  without the timestamp, and calls of a job's \<^verbatim>\<open>RunJob\<close>), and the updates of the two
  queues, of the two counters and of the wake channel, and the dequeue requests, so that
  the order of a function's statements can be read off the trace.
\<close>

datatype 'j action =
    PushBackPriority "'j queueJob"
  | PushBackNormal "'j queueJob"
  | RemovePriority
  | RemoveNormal
  | AddQueuedJobs int32
  | AddActiveRoutines int32
  | SendError nat "error option"
  | SendJob nat "'j queueJob"
  | SendWake string
  | DequeueRequest nat
  | RunJob 'j int
  | Stdout string string string string
  | PanicLog string string string panic

text \<open>
  Where the queue routine is (in its \<^verbatim>\<open>select\<close>, blocked in the send on
  \<^verbatim>\<open>jobChannel\<close>, returned, or killed by a panic nobody recovered), and where each job
  routine is (in its \<^verbatim>\<open>select\<close>; in \<^verbatim>\<open>dequeueJob\<close> with the result channel it made,
  its request not yet taken by the queue routine; in \<^verbatim>\<open>RunJob\<close>; blocked for good on a
  result channel nobody will send on; returned).
\<close>

datatype coord = Selecting | SendingWake | Down | Crashed

datatype 'j worker =
    Waiting
  | Requesting nat
  | Running "'j queueJob"
  | Stuck
  | Exited

record 'j world =
  this :: "'j JobPool"
  queueRoutine_at :: coord
  jobRoutine_at :: "'j worker list"
  trace :: "'j action list"

definition emit :: "'j action \<Rightarrow> 'j world \<Rightarrow> 'j world" where
  "emit a s = s\<lparr>trace := trace s @ [a]\<rparr>"

section \<open>Statements\<close>

type_synonym ('j, 'a) go = "'j world \<Rightarrow> 'a result \<times> 'j world"

definition bind_go :: "('j, 'a) go \<Rightarrow> ('a \<Rightarrow> ('j, 'b) go) \<Rightarrow> ('j, 'b) go" where
  "bind_go m k s =
     (case m s of
        (Ok a, s') \<Rightarrow> k a s'
      | (Panicked r, s') \<Rightarrow> (Panicked r, s')
      | (Blocked, s') \<Rightarrow> (Blocked, s'))"

fun block :: "('j, unit) go list \<Rightarrow> ('j, unit) go" where
  "block [] s = (Ok (), s)"
| "block (c # cs) s =
     (case c s of
        (Ok _, s') \<Rightarrow> block cs s'
      | (Panicked r, s') \<Rightarrow> (Panicked r, s')
      | (Blocked, s') \<Rightarrow> (Blocked, s'))"

text \<open>\<^verbatim>\<open>%d\<close> of a number that is not negative.\<close>

fun decimal :: "nat \<Rightarrow> string" where
  "decimal n =
     (if n < 10 then [char_of (48 + n)]
      else decimal (n div 10) @ [char_of (48 + n mod 10)])"

declare decimal.simps [simp del]

definition writeStdout :: "string \<Rightarrow> string \<Rightarrow> string \<Rightarrow> string \<Rightarrow> ('j, unit) go" where
  "writeStdout goRoutine namespace functionName message s =
     (Ok (), emit (Stdout goRoutine namespace functionName message) s)"

definition add_queuedJobs :: "int32 \<Rightarrow> ('j, unit) go" where
  "add_queuedJobs d s =
     (Ok (), emit (AddQueuedJobs d)
        (s\<lparr>this := (this s)\<lparr>queuedJobs := queuedJobs (this s) + d\<rparr>\<rparr>))"

definition add_activeRoutines :: "int32 \<Rightarrow> ('j, unit) go" where
  "add_activeRoutines d s =
     (Ok (), emit (AddActiveRoutines d)
        (s\<lparr>this := (this s)\<lparr>activeRoutines := activeRoutines (this s) + d\<rparr>\<rparr>))"

definition pushBack_priority :: "'j queueJob \<Rightarrow> ('j, unit) go" where
  "pushBack_priority j s =
     (Ok (), emit (PushBackPriority j)
        (s\<lparr>this := (this s)\<lparr>priorityJobQueue := list_PushBack (priorityJobQueue (this s)) j\<rparr>\<rparr>))"

definition pushBack_normal :: "'j queueJob \<Rightarrow> ('j, unit) go" where
  "pushBack_normal j s =
     (Ok (), emit (PushBackNormal j)
        (s\<lparr>this := (this s)\<lparr>normalJobQueue := list_PushBack (normalJobQueue (this s)) j\<rparr>\<rparr>))"

text \<open>\<^verbatim>\<open>nextJob = q.Front(); q.Remove(nextJob)\<close> on either queue.\<close>

definition front_remove_priority :: "('j, 'j queueJob option) go" where
  "front_remove_priority s =
     (let nextJob = list_Front (priorityJobQueue (this s)) in
      case list_Remove (priorityJobQueue (this s)) nextJob of
        Ok l \<Rightarrow> (Ok nextJob, emit RemovePriority (s\<lparr>this := (this s)\<lparr>priorityJobQueue := l\<rparr>\<rparr>))
      | Panicked r \<Rightarrow> (Panicked r, s)
      | Blocked \<Rightarrow> (Blocked, s))"

definition front_remove_normal :: "('j, 'j queueJob option) go" where
  "front_remove_normal s =
     (let nextJob = list_Front (normalJobQueue (this s)) in
      case list_Remove (normalJobQueue (this s)) nextJob of
        Ok l \<Rightarrow> (Ok nextJob, emit RemoveNormal (s\<lparr>this := (this s)\<lparr>normalJobQueue := l\<rparr>\<rparr>))
      | Panicked r \<Rightarrow> (Panicked r, s)
      | Blocked \<Rightarrow> (Blocked, s))"

text \<open>\<^verbatim>\<open>nextJob.Value.(*queueJob)\<close>: a nil element is dereferenced.\<close>

definition element_Value :: "'a option \<Rightarrow> ('j, 'a) go" where
  "element_Value e s =
     (case e of None \<Rightarrow> (Panicked NilPointerDereference, s) | Some v \<Rightarrow> (Ok v, s))"

text \<open>
  A send on a request's result channel. The requester made the channel, sent the request
  and receives on the channel at once, so the send completes.
\<close>

definition send_error :: "nat \<Rightarrow> error option \<Rightarrow> ('j, unit) go" where
  "send_error rc v s = (Ok (), emit (SendError rc v) s)"

definition send_job :: "nat \<Rightarrow> 'j queueJob \<Rightarrow> ('j, unit) go" where
  "send_job rc v s = (Ok (), emit (SendJob rc v) s)"

text \<open>
  \<^verbatim>\<open>this.jobChannel <- msg\<close>: panics on a closed channel, completes when the buffer has
  room, blocks when it is full.
\<close>

definition send_jobChannel :: "string \<Rightarrow> ('j, unit) go" where
  "send_jobChannel msg s =
     (let c = jobChannel (this s) in
      if closed c then (Panicked SendOnClosedChannel, s)
      else if length (buf c) < cap c then
        (Ok (), emit (SendWake msg) (s\<lparr>this := (this s)\<lparr>jobChannel := c\<lparr>buf := buf c @ [msg]\<rparr>\<rparr>\<rparr>))
      else (Blocked, s))"

section \<open>catchPanic\<close>

text \<open>
  \<open>err\<close> is the pointer argument: \<open>None\<close> for \<^verbatim>\<open>nil\<close>, \<open>Some v\<close> for a pointer to a
  variable holding \<open>v\<close>; the variable's new value is returned the same way. \<open>r\<close> is what
  \<^verbatim>\<open>recover()\<close> gives: the panic in flight, if any. The logged line stands for the
  \<^verbatim>\<open>PANIC Defered\<close> message with its stack trace.
\<close>

definition catchPanic ::
  "error option option \<Rightarrow> string \<Rightarrow> string \<Rightarrow> string \<Rightarrow> panic option \<Rightarrow> 'j world
     \<Rightarrow> error option option \<times> 'j world" where
  "catchPanic err goRoutine namespace functionName r s =
     (case r of
        None \<Rightarrow> (err, s)
      | Some p \<Rightarrow>
          (case err of None \<Rightarrow> None | Some _ \<Rightarrow> Some (Some (Errorf (panic_text p))),
           emit (PanicLog goRoutine namespace functionName p) s))"

text \<open>
  \<^verbatim>\<open>defer catchPanic(nil, ...)\<close> around a body without results: a goroutine blocked
  in the body never reaches the deferred call; otherwise the call runs, recovers a panic
  if there is one, and the function returns normally.
\<close>

definition defer_catchPanic_nil ::
  "string \<Rightarrow> string \<Rightarrow> string \<Rightarrow> ('j, unit) go \<Rightarrow> ('j, unit) go" where
  "defer_catchPanic_nil goRoutine namespace functionName body s =
     (case body s of
        (Blocked, s') \<Rightarrow> (Blocked, s')
      | (r, s') \<Rightarrow> (Ok (), snd (catchPanic None goRoutine namespace functionName (panic_of r) s')))"

section \<open>The queue routine\<close>

definition QueuedJobs :: "'j world \<Rightarrow> int32" where
  "QueuedJobs s = queuedJobs (this s) + 0"

definition ActiveRoutines :: "'j world \<Rightarrow> int32" where
  "ActiveRoutines s = activeRoutines (this s) + 0"

definition queueRoutineEnqueue_body :: "'j queueJob \<Rightarrow> ('j, unit) go" where
  "queueRoutineEnqueue_body queueJob s =
     (if queuedJobs (this s) + 0 = queueCapacity (this s) then
        send_error (ResultChannel queueJob) (Some (Errorf ''Job Pool At Capacity'')) s
      else
        block [
          (if Priority queueJob = True then pushBack_priority queueJob
           else pushBack_normal queueJob),
          add_queuedJobs 1,
          send_error (ResultChannel queueJob) None,
          send_jobChannel ''Wake Up''] s)"

definition queueRoutineEnqueue :: "'j queueJob \<Rightarrow> ('j, unit) go" where
  "queueRoutineEnqueue queueJob =
     defer_catchPanic_nil ''Queue'' ''jobPool.JobPool'' ''queueRoutineEnqueue''
       (queueRoutineEnqueue_body queueJob)"

definition queueRoutineDequeue_body :: "dequeueRequest \<Rightarrow> ('j, unit) go" where
  "queueRoutineDequeue_body dequeueJob =
     bind_go
       (\<lambda>s. if length (priorityJobQueue (this s)) > 0 then front_remove_priority s
            else front_remove_normal s)
       (\<lambda>nextJob.
          bind_go (add_queuedJobs (- 1)) (\<lambda>_.
          bind_go (element_Value nextJob) (\<lambda>jobPool.
          send_job (ResultChannel_dq dequeueJob) jobPool)))"

definition queueRoutineDequeue :: "dequeueRequest \<Rightarrow> ('j, unit) go" where
  "queueRoutineDequeue dequeueJob =
     defer_catchPanic_nil ''Queue'' ''jobPool.JobPool'' ''queueRoutineDequeue''
       (queueRoutineDequeue_body dequeueJob)"

text \<open>
  One round of \<^verbatim>\<open>queueRoutine\<close>'s loop, for the message its \<^verbatim>\<open>select\<close> received.
  A handler that returns leaves the routine in its \<^verbatim>\<open>select\<close>; one that blocks leaves
  it in the send on \<^verbatim>\<open>jobChannel\<close>; a panic leaving a handler would kill the routine.
\<close>

datatype 'j request =
    ShutdownMsg string
  | EnqueueMsg "'j queueJob"
  | DequeueMsg dequeueRequest

definition after_handler :: "unit result \<times> 'j world \<Rightarrow> 'j world" where
  "after_handler rs =
     (case rs of
        (Ok _, s') \<Rightarrow> s'\<lparr>queueRoutine_at := Selecting\<rparr>
      | (Blocked, s') \<Rightarrow> s'\<lparr>queueRoutine_at := SendingWake\<rparr>
      | (Panicked _, s') \<Rightarrow> s'\<lparr>queueRoutine_at := Crashed\<rparr>)"

definition queueRoutine :: "'j request \<Rightarrow> 'j world \<Rightarrow> 'j world" where
  "queueRoutine m s =
     (case m of
        ShutdownMsg _ \<Rightarrow>
          (emit (Stdout ''Queue'' ''jobpool.JobPool'' ''queueRoutine'' ''Going Down'') s)
            \<lparr>queueRoutine_at := Down\<rparr>
      | EnqueueMsg queueJob \<Rightarrow> after_handler (queueRoutineEnqueue queueJob s)
      | DequeueMsg dequeueJob \<Rightarrow> after_handler (queueRoutineDequeue dequeueJob s))"

section \<open>New\<close>

text \<open>
  \<^verbatim>\<open>New\<close> has no deferred \<^verbatim>\<open>catchPanic\<close>: the panic of \<^verbatim>\<open>make\<close> on a negative
  capacity reaches the caller. The loop starts one job routine for each
  \<open>0 \<le> jobRoutine < numberOfRoutines\<close>, each after \<^verbatim>\<open>shutdownWaitGroup.Add(1)\<close>.
\<close>

definition make_unbuffered :: "'a chan" where
  "make_unbuffered = \<lparr>buf = [], cap = 0, closed = False\<rparr>"

definition New :: "int \<Rightarrow> int32 \<Rightarrow> panic + 'j world" where
  "New numberOfRoutines queueCapacity' =
     (case make_chan (sint queueCapacity') of
        Inl r \<Rightarrow> Inl r
      | Inr jc \<Rightarrow>
          Inr \<lparr>this = \<lparr>priorityJobQueue = [],
                        normalJobQueue = [],
                        queueChannel = make_unbuffered,
                        dequeueChannel = make_unbuffered,
                        shutdownQueueChannel = make_unbuffered,
                        jobChannel = jc,
                        shutdownJobChannel = make_unbuffered,
                        shutdownWaitGroup = int (nat numberOfRoutines),
                        queuedJobs = 0,
                        activeRoutines = 0,
                        queueCapacity = queueCapacity'\<rparr>,
               queueRoutine_at = Selecting,
               jobRoutine_at = replicate (nat numberOfRoutines) Waiting,
               trace = []\<rparr>)"

section \<open>QueueJob\<close>

text \<open>
  A send on \<^verbatim>\<open>queueChannel\<close> or \<^verbatim>\<open>dequeueChannel\<close> (both unbuffered) panics when the
  channel is closed; otherwise it completes when the queue routine, in its
  \<^verbatim>\<open>select\<close>, receives the request, which it then handles while the sender goes on to
  receive on the request's result channel.
\<close>

definition send_queueChannel :: "'j queueJob \<Rightarrow> ('j, unit) go" where
  "send_queueChannel jobPool s =
     (if closed (queueChannel (this s)) then (Panicked SendOnClosedChannel, s)
      else if queueRoutine_at s = Selecting then (Ok (), queueRoutine (EnqueueMsg jobPool) s)
      else (Blocked, s))"

definition send_dequeueChannel :: "dequeueRequest \<Rightarrow> ('j, unit) go" where
  "send_dequeueChannel requestJob s =
     (if closed (dequeueChannel (this s)) then (Panicked SendOnClosedChannel, s)
      else if queueRoutine_at s = Selecting then
        (Ok (), queueRoutine (DequeueMsg requestJob)
                  (emit (DequeueRequest (ResultChannel_dq requestJob)) s))
      else (Blocked, s))"

text \<open>
  A receive on a result channel made when the trace had \<open>since\<close> entries: the first
  value sent on it, or blocked if none was.
\<close>

fun sent_error :: "nat \<Rightarrow> 'j action \<Rightarrow> error option option" where
  "sent_error rc (SendError c v) = (if c = rc then Some v else None)"
| "sent_error rc _ = None"

fun sent_job :: "nat \<Rightarrow> 'j action \<Rightarrow> 'j queueJob option" where
  "sent_job rc (SendJob c v) = (if c = rc then Some v else None)"
| "sent_job rc _ = None"

definition recv_error :: "nat \<Rightarrow> nat \<Rightarrow> ('j, error option) go" where
  "recv_error rc since s =
     (case List.map_filter (sent_error rc) (drop since (trace s)) of
        [] \<Rightarrow> (Blocked, s)
      | v # _ \<Rightarrow> (Ok v, s))"

definition recv_job :: "nat \<Rightarrow> nat \<Rightarrow> ('j, 'j queueJob option) go" where
  "recv_job rc since s =
     (case List.map_filter (sent_job rc) (drop since (trace s)) of
        [] \<Rightarrow> (Blocked, s)
      | v # _ \<Rightarrow> (Ok (Some v), s))"

definition named_err :: "error option option \<Rightarrow> error option" where
  "named_err p = (case p of Some v \<Rightarrow> v | None \<Rightarrow> None)"

text \<open>
  \<open>rc\<close> names the channel \<^verbatim>\<open>make(chan error)\<close> returns. The deferred \<^verbatim>\<open>close\<close> of
  that channel has no effect anyone sees.
\<close>

definition QueueJob_body :: "'j \<Rightarrow> bool \<Rightarrow> nat \<Rightarrow> ('j, error option) go" where
  "QueueJob_body jober priority rc s =
     (let jobPool = \<lparr>Jobber = jober, Priority = priority, ResultChannel = rc\<rparr>;
          since = length (trace s)
      in bind_go (send_queueChannel jobPool) (\<lambda>_. recv_error rc since) s)"

definition QueueJob :: "string \<Rightarrow> 'j \<Rightarrow> bool \<Rightarrow> nat \<Rightarrow> ('j, error option) go" where
  "QueueJob goRoutine jober priority rc s =
     (case QueueJob_body jober priority rc s of
        (Blocked, s') \<Rightarrow> (Blocked, s')
      | (r, s') \<Rightarrow>
          (let err = (case r of Ok e \<Rightarrow> e | _ \<Rightarrow> None);
               (p, s'') = catchPanic (Some err) goRoutine ''jobPool.JobPool'' ''QueueJob''
                            (panic_of r) s'
           in (Ok (named_err p), s'')))"

section \<open>The job routines\<close>

definition dequeueJob_body :: "nat \<Rightarrow> ('j, 'j queueJob option) go" where
  "dequeueJob_body rc s =
     (let requestJob = \<lparr>ResultChannel_dq = rc\<rparr>;
          since = length (trace s)
      in bind_go (send_dequeueChannel requestJob) (\<lambda>_. recv_job rc since) s)"

definition dequeueJob :: "nat \<Rightarrow> ('j, 'j queueJob option \<times> error option) go" where
  "dequeueJob rc s =
     (case dequeueJob_body rc s of
        (Blocked, s') \<Rightarrow> (Blocked, s')
      | (r, s') \<Rightarrow>
          (let job = (case r of Ok j \<Rightarrow> j | _ \<Rightarrow> None);
               (p, s'') = catchPanic (Some None) ''jobRoutine'' ''jobPool.JobPool'' ''dequeueJob''
                            (panic_of r) s'
           in (Ok (job, named_err p), s'')))"

text \<open>
  \<open>run\<close> is what the caller's \<^verbatim>\<open>RunJob\<close> does with a job and a routine number: return,
  panic, or never return. It is taken not to use the pool. A nil \<^verbatim>\<open>*queueJob\<close> is
  dereferenced by the call.
\<close>

fun error_text :: "error \<Rightarrow> string" where
  "error_text (Errorf m) = m"

definition call_RunJob ::
  "('j \<Rightarrow> int \<Rightarrow> unit result) \<Rightarrow> 'j queueJob option \<Rightarrow> int \<Rightarrow> ('j, unit) go" where
  "call_RunJob run queueJob jobRoutine s =
     (case queueJob of
        None \<Rightarrow> (Panicked NilPointerDereference, s)
      | Some j \<Rightarrow> (run (Jobber j) jobRoutine, emit (RunJob (Jobber j) jobRoutine) s))"

definition after_dequeueJob ::
  "('j \<Rightarrow> int \<Rightarrow> unit result) \<Rightarrow> int \<Rightarrow> 'j queueJob option \<times> error option \<Rightarrow> ('j, unit) go" where
  "after_dequeueJob run jobRoutine = (\<lambda>(queueJob, err).
     case err of
       Some e \<Rightarrow>
         writeStdout ''Queue'' ''jobpool.JobPool'' ''doJobSafely'' (''ERROR : '' @ error_text e)
     | None \<Rightarrow> call_RunJob run queueJob jobRoutine)"

definition doJobSafely_body ::
  "('j \<Rightarrow> int \<Rightarrow> unit result) \<Rightarrow> int \<Rightarrow> nat \<Rightarrow> ('j, unit) go" where
  "doJobSafely_body run jobRoutine rc =
     bind_go (add_activeRoutines 1) (\<lambda>_.
     bind_go (dequeueJob rc) (after_dequeueJob run jobRoutine))"

text \<open>
  The two deferred calls run last-in first-out: the decrement of \<^verbatim>\<open>activeRoutines\<close>,
  then \<^verbatim>\<open>catchPanic\<close>, which recovers what the body panicked with. A routine blocked in
  the body has not reached them.
\<close>

definition doJobSafely_deferred :: "unit result \<Rightarrow> 'j world \<Rightarrow> 'j world" where
  "doJobSafely_deferred r s =
     snd (catchPanic None ''jobRoutine'' ''jobPool.JobPool'' ''doJobSafely'' (panic_of r)
            (snd (add_activeRoutines (- 1) s)))"

definition doJobSafely ::
  "('j \<Rightarrow> int \<Rightarrow> unit result) \<Rightarrow> int \<Rightarrow> nat \<Rightarrow> ('j, unit) go" where
  "doJobSafely run jobRoutine rc s =
     (case doJobSafely_body run jobRoutine rc s of
        (Blocked, s') \<Rightarrow> (Blocked, s')
      | (r, s') \<Rightarrow> (Ok (), doJobSafely_deferred r s'))"

text \<open>
  \<^verbatim>\<open><-this.jobChannel\<close>: the oldest buffered value; the zero value at once when the
  channel is closed and empty; blocked otherwise.
\<close>

definition recv_jobChannel :: "('j, string) go" where
  "recv_jobChannel s =
     (let c = jobChannel (this s) in
      case buf c of
        m # ms \<Rightarrow> (Ok m, s\<lparr>this := (this s)\<lparr>jobChannel := c\<lparr>buf := ms\<rparr>\<rparr>\<rparr>)
      | [] \<Rightarrow> if closed c then (Ok [], s) else (Blocked, s))"

section \<open>Shutdown\<close>

text \<open>
  \<^verbatim>\<open>Shutdown\<close> up to its \<^verbatim>\<open>shutdownWaitGroup.Wait()\<close>, and from there on. The send on
  \<^verbatim>\<open>shutdownQueueChannel\<close> is taken by the queue routine in its \<^verbatim>\<open>select\<close>, which
  answers and returns; on a channel already closed the send panics.
\<close>

definition shutdown_handshake :: "('j, unit) go" where
  "shutdown_handshake s =
     (if closed (shutdownQueueChannel (this s)) then (Panicked SendOnClosedChannel, s)
      else if queueRoutine_at s = Selecting then (Ok (), queueRoutine (ShutdownMsg ''Shutdown'') s)
      else (Blocked, s))"

definition close_queue_channels :: "('j, unit) go" where
  "close_queue_channels s =
     (Ok (), s\<lparr>this := (this s)\<lparr>
        shutdownQueueChannel := close_chan (shutdownQueueChannel (this s)),
        queueChannel := close_chan (queueChannel (this s)),
        dequeueChannel := close_chan (dequeueChannel (this s))\<rparr>\<rparr>)"

definition close_shutdownJobChannel :: "('j, unit) go" where
  "close_shutdownJobChannel s =
     (Ok (), s\<lparr>this := (this s)\<lparr>shutdownJobChannel := close_chan (shutdownJobChannel (this s))\<rparr>\<rparr>)"

definition close_jobChannel :: "('j, unit) go" where
  "close_jobChannel s =
     (Ok (), s\<lparr>this := (this s)\<lparr>jobChannel := close_chan (jobChannel (this s))\<rparr>\<rparr>)"

definition Shutdown_until_Wait :: "string \<Rightarrow> ('j, unit) go" where
  "Shutdown_until_Wait goRoutine =
     block [
       writeStdout goRoutine ''jobPool.JobPool'' ''Shutdown'' ''Started'',
       writeStdout goRoutine ''jobPool.JobPool'' ''Shutdown'' ''Queue Routine'',
       shutdown_handshake,
       close_queue_channels,
       writeStdout goRoutine ''jobPool.JobPool'' ''Shutdown'' ''Shutting Down Job Routines'',
       close_shutdownJobChannel]"

definition Shutdown_after_Wait :: "string \<Rightarrow> ('j, unit) go" where
  "Shutdown_after_Wait goRoutine =
     block [
       close_jobChannel,
       writeStdout goRoutine ''jobPool.JobPool'' ''Shutdown'' ''Completed'']"

section \<open>The goroutines together\<close>

text \<open>
  The pool runs as an interleaving of steps, each taken by one goroutine:
  \<^item> \<open>Submit\<close>: a caller runs \<^verbatim>\<open>QueueJob\<close>; the queue routine takes the request and
    handles it up to its return, or up to a send on \<^verbatim>\<open>jobChannel\<close> that finds the
    buffer full. (Job routines that take wake-ups while the handler runs only make room
    in the buffer, so a send that completes here completes in every interleaving.)
  \<^item> \<open>WakeSent\<close>: the queue routine's blocked send on \<^verbatim>\<open>jobChannel\<close> completes.
  \<^item> \<open>TakeWake i rc\<close>: job routine \<open>i\<close>, in its \<^verbatim>\<open>select\<close>, receives from
    \<^verbatim>\<open>jobChannel\<close>, enters \<^verbatim>\<open>doJobSafely\<close>, increments \<^verbatim>\<open>activeRoutines\<close> and
    enters \<^verbatim>\<open>dequeueJob\<close>, where it makes the result channel \<open>rc\<close>.
  \<^item> \<open>Serve i\<close>: the rest of job routine \<open>i\<close>'s \<^verbatim>\<open>dequeueJob\<close>, with the queue
    routine's handling of the request, up to the call of \<^verbatim>\<open>RunJob\<close> (or, without a
    job, up to the return of \<^verbatim>\<open>doJobSafely\<close>).
  \<^item> \<open>JobEnds i r\<close>: the \<^verbatim>\<open>RunJob\<close> of job routine \<open>i\<close> returns or panics, and
    \<^verbatim>\<open>doJobSafely\<close> returns through its deferred calls.
  \<^item> \<open>ShutdownCalled g\<close>: a caller runs \<^verbatim>\<open>Shutdown\<close> up to
    \<^verbatim>\<open>shutdownWaitGroup.Wait()\<close>, or to the deferred \<^verbatim>\<open>catchPanic\<close> if it panics.
  \<^item> \<open>RoutineExits i\<close>: job routine \<open>i\<close>, in its \<^verbatim>\<open>select\<close>, finds
    \<^verbatim>\<open>shutdownJobChannel\<close> closed and returns.
  \<^item> \<open>ShutdownReturns g\<close>: \<^verbatim>\<open>Wait()\<close> returns, the wait group's counter being 0, and
    \<^verbatim>\<open>Shutdown\<close> runs to its end.
  A step that cannot be taken in a state is \<open>None\<close>.
\<close>

datatype 'j label =
    Submit string 'j bool nat
  | WakeSent
  | TakeWake nat nat
  | Serve nat
  | JobEnds nat "unit result"
  | ShutdownCalled string
  | RoutineExits nat
  | ShutdownReturns string

definition routine :: "nat \<Rightarrow> 'j world \<Rightarrow> 'j worker option" where
  "routine i s = (if i < length (jobRoutine_at s) then Some (jobRoutine_at s ! i) else None)"

definition set_routine :: "nat \<Rightarrow> 'j worker \<Rightarrow> 'j world \<Rightarrow> 'j world" where
  "set_routine i w s = s\<lparr>jobRoutine_at := (jobRoutine_at s)[i := w]\<rparr>"

definition not_returned :: "'j \<Rightarrow> int \<Rightarrow> unit result" where
  "not_returned j n = Blocked"

definition step_Submit :: "string \<Rightarrow> 'j \<Rightarrow> bool \<Rightarrow> nat \<Rightarrow> 'j world \<Rightarrow> 'j world option" where
  "step_Submit g jober priority rc s =
     (case QueueJob g jober priority rc s of (Ok _, s') \<Rightarrow> Some s' | _ \<Rightarrow> None)"

definition step_WakeSent :: "'j world \<Rightarrow> 'j world option" where
  "step_WakeSent s =
     (if queueRoutine_at s = SendingWake then
        (case defer_catchPanic_nil ''Queue'' ''jobPool.JobPool'' ''queueRoutineEnqueue''
                (send_jobChannel ''Wake Up'') s of
           (Blocked, _) \<Rightarrow> None
         | rs \<Rightarrow> Some (after_handler rs))
      else None)"

definition step_TakeWake :: "nat \<Rightarrow> nat \<Rightarrow> 'j world \<Rightarrow> 'j world option" where
  "step_TakeWake i rc s =
     (case routine i s of
        Some Waiting \<Rightarrow>
          (case recv_jobChannel s of
             (Ok _, s') \<Rightarrow> Some (set_routine i (Requesting rc) (snd (add_activeRoutines 1 s')))
           | _ \<Rightarrow> None)
      | _ \<Rightarrow> None)"

definition step_Serve :: "nat \<Rightarrow> 'j world \<Rightarrow> 'j world option" where
  "step_Serve i s =
     (case routine i s of
        Some (Requesting rc) \<Rightarrow>
          (case dequeueJob rc s of
             (Ok (queueJob, err), s') \<Rightarrow>
               (case after_dequeueJob not_returned (int i) (queueJob, err) s' of
                  (Blocked, s'') \<Rightarrow>
                    (case queueJob of
                       Some j \<Rightarrow> Some (set_routine i (Running j) s'')
                     | None \<Rightarrow> None)
                | (r, s'') \<Rightarrow> Some (set_routine i Waiting (doJobSafely_deferred r s'')))
           | (Blocked, s') \<Rightarrow>
               if \<not> closed (dequeueChannel (this s)) \<and> queueRoutine_at s = Selecting
               then Some (set_routine i Stuck s') else None
           | (Panicked _, _) \<Rightarrow> None)
      | _ \<Rightarrow> None)"

definition step_JobEnds :: "nat \<Rightarrow> unit result \<Rightarrow> 'j world \<Rightarrow> 'j world option" where
  "step_JobEnds i r s =
     (case routine i s of
        Some (Running j) \<Rightarrow>
          if r = Blocked then None else Some (set_routine i Waiting (doJobSafely_deferred r s))
      | _ \<Rightarrow> None)"

definition waiting_in_Shutdown :: "'j world \<Rightarrow> bool" where
  "waiting_in_Shutdown s \<longleftrightarrow>
     closed (shutdownJobChannel (this s)) \<and> \<not> closed (jobChannel (this s))"

definition step_ShutdownCalled :: "string \<Rightarrow> 'j world \<Rightarrow> 'j world option" where
  "step_ShutdownCalled g s =
     (case Shutdown_until_Wait g s of
        (Ok _, s') \<Rightarrow> Some s'
      | (Panicked r, s') \<Rightarrow>
          Some (snd (catchPanic (Some None) g ''jobPool.JobPool'' ''Shutdown'' (Some r) s'))
      | (Blocked, _) \<Rightarrow> None)"

definition step_RoutineExits :: "nat \<Rightarrow> 'j world \<Rightarrow> 'j world option" where
  "step_RoutineExits i s =
     (case routine i s of
        Some Waiting \<Rightarrow>
          if closed (shutdownJobChannel (this s)) then
            Some (set_routine i Exited
              (emit (Stdout (''JobRoutine '' @ decimal i) ''jobPool.JobPool'' ''jobRoutine''
                       ''Going Down'')
                (s\<lparr>this := (this s)\<lparr>shutdownWaitGroup := shutdownWaitGroup (this s) - 1\<rparr>\<rparr>)))
          else None
      | _ \<Rightarrow> None)"

definition step_ShutdownReturns :: "string \<Rightarrow> 'j world \<Rightarrow> 'j world option" where
  "step_ShutdownReturns g s =
     (if waiting_in_Shutdown s \<and> shutdownWaitGroup (this s) = 0 then
        (case Shutdown_after_Wait g s of (Ok _, s') \<Rightarrow> Some s' | _ \<Rightarrow> None)
      else None)"

fun step :: "'j label \<Rightarrow> 'j world \<Rightarrow> 'j world option" where
  "step (Submit g jober priority rc) s = step_Submit g jober priority rc s"
| "step WakeSent s = step_WakeSent s"
| "step (TakeWake i rc) s = step_TakeWake i rc s"
| "step (Serve i) s = step_Serve i s"
| "step (JobEnds i r) s = step_JobEnds i r s"
| "step (ShutdownCalled g) s = step_ShutdownCalled g s"
| "step (RoutineExits i) s = step_RoutineExits i s"
| "step (ShutdownReturns g) s = step_ShutdownReturns g s"

fun exec :: "'j label list \<Rightarrow> 'j world \<Rightarrow> 'j world option" where
  "exec [] s = Some s"
| "exec (l # ls) s = (case step l s of None \<Rightarrow> None | Some s' \<Rightarrow> exec ls s')"

text \<open>The jobs run so far, with the routine that ran each, in the order of the calls.\<close>

fun ran :: "'j action \<Rightarrow> ('j \<times> int) option" where
  "ran (RunJob j n) = Some (j, n)"
| "ran _ = None"

definition executed :: "'j world \<Rightarrow> ('j \<times> int) list" where
  "executed s = List.map_filter ran (trace s)"

section \<open>Invariants and derived notions\<close>

text \<open>
  What holds of the queues and the counter between two operations of the queue routine.
\<close>

definition queue_inv :: "'j JobPool \<Rightarrow> bool" where
  "queue_inv p \<longleftrightarrow>
     int (length (priorityJobQueue p) + length (normalJobQueue p)) = sint (queuedJobs p)
     \<and> 0 \<le> sint (queuedJobs p)
     \<and> sint (queuedJobs p) \<le> sint (queueCapacity p)"

text \<open>
  What holds of the whole pool in every state it reaches: the wake-ups in the buffer are
  no more than the queued jobs, and while the queue routine serves, so are the wake-ups
  together with the job routines that took one and still wait for their job; the queue
  routine is in its \<^verbatim>\<open>select\<close> or has returned; the channels the job routines wait
  on are closed only once it has returned.
\<close>

fun requesting :: "'j worker \<Rightarrow> bool" where
  "requesting (Requesting _) = True"
| "requesting _ = False"

definition pool_inv :: "'j world \<Rightarrow> bool" where
  "pool_inv s \<longleftrightarrow>
     queue_inv (this s)
     \<and> cap (jobChannel (this s)) = nat (sint (queueCapacity (this s)))
     \<and> int (length (buf (jobChannel (this s)))) \<le> sint (queuedJobs (this s))
     \<and> (queueRoutine_at s = Selecting \<longrightarrow>
          int (length (buf (jobChannel (this s))) + length (filter requesting (jobRoutine_at s)))
            \<le> sint (queuedJobs (this s)))
     \<and> (queueRoutine_at s = Selecting \<or> queueRoutine_at s = Down)
     \<and> (closed (jobChannel (this s)) \<longrightarrow> closed (shutdownJobChannel (this s)))
     \<and> (closed (shutdownJobChannel (this s)) \<longrightarrow> queueRoutine_at s = Down)"

text \<open>
  The job routines between their wake-up and the end of \<^verbatim>\<open>doJobSafely\<close>, those of them
  in \<^verbatim>\<open>RunJob\<close>, and what \<^verbatim>\<open>activeRoutines\<close> is in every state the pool reaches.
\<close>

fun in_doJobSafely :: "'j worker \<Rightarrow> bool" where
  "in_doJobSafely (Requesting _) = True"
| "in_doJobSafely (Running _) = True"
| "in_doJobSafely Stuck = True"
| "in_doJobSafely _ = False"

fun in_RunJob :: "'j worker \<Rightarrow> bool" where
  "in_RunJob (Running _) = True"
| "in_RunJob _ = False"

definition active_inv :: "'j world \<Rightarrow> bool" where
  "active_inv s \<longleftrightarrow>
     activeRoutines (this s) = word_of_nat (length (filter in_doJobSafely (jobRoutine_at s)))"

text \<open>A call leaves a component of the state as it was.\<close>

definition keeps :: "('j world \<Rightarrow> 'a) \<Rightarrow> ('j, 'b) go \<Rightarrow> bool" where
  "keeps p f \<longleftrightarrow> (\<forall>s. p (snd (f s)) = p s)"

text \<open>
  What only the job routines change, and what nothing changes: where the job routines
  are, \<^verbatim>\<open>activeRoutines\<close>, and \<^verbatim>\<open>queueCapacity\<close>.
\<close>

definition frame :: "'j world \<Rightarrow> 'j worker list \<times> int32 \<times> int32" where
  "frame s = (jobRoutine_at s, activeRoutines (this s), queueCapacity (this s))"

text \<open>The job the queues hand out next, and the removal that takes it.\<close>

definition next_job :: "'j JobPool \<Rightarrow> 'j queueJob option" where
  "next_job p =
     (case priorityJobQueue p of
        j # _ \<Rightarrow> Some j
      | [] \<Rightarrow> (case normalJobQueue p of j # _ \<Rightarrow> Some j | [] \<Rightarrow> None))"

definition removal :: "'j JobPool \<Rightarrow> 'j action" where
  "removal p = (if priorityJobQueue p \<noteq> [] then RemovePriority else RemoveNormal)"

text \<open>The pool \<^verbatim>\<open>New(1, 10)\<close> returns.\<close>

definition fresh_pool :: "string world" where
  "fresh_pool =
     \<lparr>this = \<lparr>priorityJobQueue = [],
               normalJobQueue = [],
               queueChannel = \<lparr>buf = [], cap = 0, closed = False\<rparr>,
               dequeueChannel = \<lparr>buf = [], cap = 0, closed = False\<rparr>,
               shutdownQueueChannel = \<lparr>buf = [], cap = 0, closed = False\<rparr>,
               jobChannel = \<lparr>buf = [], cap = 10, closed = False\<rparr>,
               shutdownJobChannel = \<lparr>buf = [], cap = 0, closed = False\<rparr>,
               shutdownWaitGroup = 1,
               queuedJobs = 0,
               activeRoutines = 0,
               queueCapacity = 10\<rparr>,
      queueRoutine_at = Selecting,
      jobRoutine_at = [Waiting],
      trace = []\<rparr>"

text \<open>The pool \<^verbatim>\<open>New(2, 1)\<close> returns.\<close>

definition small_pool :: "string world" where
  "small_pool =
     \<lparr>this = \<lparr>priorityJobQueue = [],
               normalJobQueue = [],
               queueChannel = \<lparr>buf = [], cap = 0, closed = False\<rparr>,
               dequeueChannel = \<lparr>buf = [], cap = 0, closed = False\<rparr>,
               shutdownQueueChannel = \<lparr>buf = [], cap = 0, closed = False\<rparr>,
               jobChannel = \<lparr>buf = [], cap = 1, closed = False\<rparr>,
               shutdownJobChannel = \<lparr>buf = [], cap = 0, closed = False\<rparr>,
               shutdownWaitGroup = 2,
               queuedJobs = 0,
               activeRoutines = 0,
               queueCapacity = 1\<rparr>,
      queueRoutine_at = Selecting,
      jobRoutine_at = [Waiting, Waiting],
      trace = []\<rparr>"

text \<open>The state a call of \<^verbatim>\<open>QueueJob\<close> from \<^verbatim>\<open>main\<close> leaves.\<close>

definition submitted :: "string \<Rightarrow> bool \<Rightarrow> nat \<Rightarrow> string world \<Rightarrow> string world" where
  "submitted jober priority rc s = snd (QueueJob ''main'' jober priority rc s)"

text \<open>Calls of \<^verbatim>\<open>QueueJob\<close> one after the other, with what each returned.\<close>

fun QueueJobs ::
  "(string \<times> 'j \<times> bool \<times> nat) list \<Rightarrow> 'j world \<Rightarrow> error option result list \<times> 'j world" where
  "QueueJobs [] s = ([], s)"
| "QueueJobs ((g, jober, priority, rc) # js) s =
     (case QueueJob g jober priority rc s of
        (r, s') \<Rightarrow> (case QueueJobs js s' of (rs, s'') \<Rightarrow> (r # rs, s'')))"

text \<open>In a trace, \<open>b\<close> comes after the first \<open>a\<close>.\<close>

definition comes_before :: "'a \<Rightarrow> 'a \<Rightarrow> 'a list \<Rightarrow> bool" where
  "comes_before a b xs \<longleftrightarrow> b \<in> set (tl (dropWhile (\<lambda>x. x \<noteq> a) xs))"

text \<open>A job that returns, and one that panics.\<close>

definition returns :: "'j \<Rightarrow> int \<Rightarrow> unit result" where
  "returns j n = Ok ()"

definition panics :: "'j \<Rightarrow> int \<Rightarrow> unit result" where
  "panics j n = Panicked (JobPanic ''boom'')"

text \<open>
  The state of \<^verbatim>\<open>New(1, 10)\<close>'s pool once \<^verbatim>\<open>J1\<close> is queued and the job routine has taken
  the wake-up and made its request's result channel.
\<close>

definition woken :: "string world" where
  "woken =
     set_routine 0 (Requesting 200)
       (snd (add_activeRoutines 1 (snd (recv_jobChannel (submitted ''J1'' False 100 fresh_pool)))))"

text \<open>
  A step leaves the job routines, \<^verbatim>\<open>activeRoutines\<close> and \<^verbatim>\<open>queueCapacity\<close> alone, or
  moves one job routine that is not blocked for good, and then changes
  \<^verbatim>\<open>activeRoutines\<close> by one as the routine enters or leaves \<^verbatim>\<open>doJobSafely\<close>.
\<close>

definition moved :: "'j world \<Rightarrow> 'j world \<Rightarrow> bool" where
  "moved s s' \<longleftrightarrow>
     (\<exists>k w w'. routine k s = Some w \<and> w \<noteq> Stuck
        \<and> jobRoutine_at s' = (jobRoutine_at s)[k := w']
        \<and> activeRoutines (this s') + (if in_doJobSafely w then 1 else 0) =
            activeRoutines (this s) + (if in_doJobSafely w' then 1 else 0)
        \<and> queueCapacity (this s') = queueCapacity (this s))"


section \<open>Arithmetic of the counters\<close>

lemma sint_succ_below:
  fixes q c :: int32
  assumes "0 \<le> sint q" "sint q \<le> sint c" "q \<noteq> c"
  shows "sint (q + 1) = sint q + 1"
proof -
  have "sint q \<noteq> sint c" using assms(3) signed_word_eqI [of q c] by auto
  then have lt: "sint q < sint c" using assms(2) by simp
  have "sint c < 2 ^ 31" using sint_lt [of c] by simp
  then have b: "sint q + 1 < 2 ^ 31" using lt by simp
  have "sint (q + 1) = signed_take_bit 31 (sint q + 1)"
    by (simp add: sint_word_ariths)
  also have "\<dots> = sint q + 1"
    using assms(1) b by (simp add: signed_take_bit_int_eq_self)
  finally show ?thesis .
qed

lemma sint_pred_pos:
  fixes q :: int32
  assumes "0 < sint q"
  shows "sint (q - 1) = sint q - 1"
proof -
  have lt: "sint q < 2 ^ 31" using sint_lt [of q] by simp
  have "sint (q - 1) = signed_take_bit 31 (sint q - 1)"
    by (simp add: sint_word_ariths)
  also have "\<dots> = sint q - 1"
    using assms lt by (simp add: signed_take_bit_int_eq_self)
  finally show ?thesis .
qed

section \<open>What the statements do\<close>

lemma emit_simps [simp]:
  "this (emit a s) = this s"
  "queueRoutine_at (emit a s) = queueRoutine_at s"
  "jobRoutine_at (emit a s) = jobRoutine_at s"
  "trace (emit a s) = trace s @ [a]"
  by (simp_all add: emit_def)

lemma enqueue_at_capacity:
  assumes "queuedJobs (this s) = queueCapacity (this s)"
  shows "queueRoutineEnqueue job s =
           (Ok (), emit (SendError (ResultChannel job) (Some (Errorf ''Job Pool At Capacity''))) s)"
  using assms
  by (simp add: queueRoutineEnqueue_def queueRoutineEnqueue_body_def defer_catchPanic_nil_def
      send_error_def catchPanic_def)

lemma enqueue_below_capacity:
  assumes "queuedJobs (this s) \<noteq> queueCapacity (this s)"
    and "\<not> closed (jobChannel (this s))"
    and "length (buf (jobChannel (this s))) < cap (jobChannel (this s))"
  shows "queueRoutineEnqueue job s =
           (Ok (),
            s\<lparr>this := (this s)\<lparr>
                 priorityJobQueue :=
                   (if Priority job then priorityJobQueue (this s) @ [job]
                    else priorityJobQueue (this s)),
                 normalJobQueue :=
                   (if Priority job then normalJobQueue (this s)
                    else normalJobQueue (this s) @ [job]),
                 queuedJobs := queuedJobs (this s) + 1,
                 jobChannel := (jobChannel (this s))\<lparr>buf := buf (jobChannel (this s)) @ [''Wake Up'']\<rparr>\<rparr>,
               trace := trace s @
                 [if Priority job then PushBackPriority job else PushBackNormal job,
                  AddQueuedJobs 1,
                  SendError (ResultChannel job) None,
                  SendWake ''Wake Up'']\<rparr>)"
  using assms
  by (simp add: queueRoutineEnqueue_def queueRoutineEnqueue_body_def defer_catchPanic_nil_def
      send_error_def catchPanic_def pushBack_priority_def pushBack_normal_def add_queuedJobs_def
      send_jobChannel_def list_PushBack_def emit_def Let_def)

lemma dequeue_priority:
  assumes "priorityJobQueue (this s) = j # js"
  shows "queueRoutineDequeue d s =
           (Ok (),
            s\<lparr>this := (this s)\<lparr>priorityJobQueue := js, queuedJobs := queuedJobs (this s) - 1\<rparr>,
              trace := trace s @ [RemovePriority, AddQueuedJobs (- 1), SendJob (ResultChannel_dq d) j]\<rparr>)"
  using assms
  by (simp add: queueRoutineDequeue_def queueRoutineDequeue_body_def defer_catchPanic_nil_def
      bind_go_def front_remove_priority_def list_Front_def list_Remove_def add_queuedJobs_def
      element_Value_def send_job_def catchPanic_def emit_def Let_def)

lemma dequeue_normal:
  assumes "priorityJobQueue (this s) = []" and "normalJobQueue (this s) = j # js"
  shows "queueRoutineDequeue d s =
           (Ok (),
            s\<lparr>this := (this s)\<lparr>normalJobQueue := js, queuedJobs := queuedJobs (this s) - 1\<rparr>,
              trace := trace s @ [RemoveNormal, AddQueuedJobs (- 1), SendJob (ResultChannel_dq d) j]\<rparr>)"
  using assms
  by (simp add: queueRoutineDequeue_def queueRoutineDequeue_body_def defer_catchPanic_nil_def
      bind_go_def front_remove_normal_def list_Front_def list_Remove_def add_queuedJobs_def
      element_Value_def send_job_def catchPanic_def emit_def Let_def)

lemma dequeue_body_empty:
  assumes "priorityJobQueue (this s) = []" and "normalJobQueue (this s) = []"
  shows "queueRoutineDequeue_body d s = (Panicked NilPointerDereference, s)"
  using assms
  by (simp add: queueRoutineDequeue_body_def bind_go_def front_remove_normal_def
      list_Front_def list_Remove_def)

lemma dequeue_body_panics_only_when_empty:
  assumes "fst (queueRoutineDequeue_body d s) = Panicked r"
  shows "priorityJobQueue (this s) = [] \<and> normalJobQueue (this s) = []"
proof (cases "priorityJobQueue (this s)")
  case (Cons j js)
  then show ?thesis using assms
    by (simp add: queueRoutineDequeue_body_def bind_go_def front_remove_priority_def
      list_Front_def list_Remove_def add_queuedJobs_def element_Value_def send_job_def)
next
  case Nil
  show ?thesis
  proof (cases "normalJobQueue (this s)")
    case (Cons j js)
    then show ?thesis using assms Nil
      by (simp add: queueRoutineDequeue_body_def bind_go_def front_remove_normal_def
        list_Front_def list_Remove_def add_queuedJobs_def element_Value_def send_job_def)
  next
    case Nil': Nil
    show ?thesis using Nil Nil' by simp
  qed
qed

lemma dequeue_empty:
  assumes "priorityJobQueue (this s) = []" and "normalJobQueue (this s) = []"
  shows "queueRoutineDequeue d s =
           (Ok (), emit (PanicLog ''Queue'' ''jobPool.JobPool'' ''queueRoutineDequeue''
                           NilPointerDereference) s)"
  using dequeue_body_empty [OF assms]
  by (simp add: queueRoutineDequeue_def defer_catchPanic_nil_def catchPanic_def)


section \<open>What the calls do\<close>

lemma map_filter_sent_error_simps [simp]:
  "List.map_filter (sent_error rc) [] = []"
  "List.map_filter (sent_error rc) (SendError rc v # as) = v # List.map_filter (sent_error rc) as"
  "List.map_filter (sent_error rc) (PushBackPriority j # as) = List.map_filter (sent_error rc) as"
  "List.map_filter (sent_error rc) (PushBackNormal j # as) = List.map_filter (sent_error rc) as"
  "List.map_filter (sent_error rc) (AddQueuedJobs d # as) = List.map_filter (sent_error rc) as"
  by (simp_all add: List.map_filter_simps)

lemma map_filter_sent_job_simps [simp]:
  "List.map_filter (sent_job rc) [] = []"
  "List.map_filter (sent_job rc) (SendJob rc j # as) = j # List.map_filter (sent_job rc) as"
  "List.map_filter (sent_job rc) (DequeueRequest c # as) = List.map_filter (sent_job rc) as"
  "List.map_filter (sent_job rc) (RemovePriority # as) = List.map_filter (sent_job rc) as"
  "List.map_filter (sent_job rc) (RemoveNormal # as) = List.map_filter (sent_job rc) as"
  "List.map_filter (sent_job rc) (AddQueuedJobs d # as) = List.map_filter (sent_job rc) as"
  "List.map_filter (sent_job rc) (PanicLog g n f r # as) = List.map_filter (sent_job rc) as"
  by (simp_all add: List.map_filter_simps)

lemma QueueJob_closed:
  assumes "closed (queueChannel (this s))"
  shows "QueueJob g jober priority rc s =
           (Ok (Some (Errorf ''send on closed channel'')),
            emit (PanicLog g ''jobPool.JobPool'' ''QueueJob'' SendOnClosedChannel) s)"
  using assms
  by (simp add: QueueJob_def QueueJob_body_def bind_go_def send_queueChannel_def catchPanic_def
      named_err_def Let_def)

lemma QueueJob_not_taken:
  assumes "\<not> closed (queueChannel (this s))" and "queueRoutine_at s \<noteq> Selecting"
  shows "QueueJob g jober priority rc s = (Blocked, s)"
  using assms
  by (simp add: QueueJob_def QueueJob_body_def bind_go_def send_queueChannel_def Let_def)

lemma QueueJob_at_capacity:
  assumes "\<not> closed (queueChannel (this s))" and "queueRoutine_at s = Selecting"
    and "queuedJobs (this s) = queueCapacity (this s)"
  shows "QueueJob g jober priority rc s =
           (Ok (Some (Errorf ''Job Pool At Capacity'')),
            emit (SendError rc (Some (Errorf ''Job Pool At Capacity''))) s)"
  using assms
  by (simp add: QueueJob_def QueueJob_body_def bind_go_def send_queueChannel_def catchPanic_def
      named_err_def Let_def queueRoutine_def after_handler_def enqueue_at_capacity recv_error_def
      emit_def)

lemma QueueJob_below_capacity:
  assumes "\<not> closed (queueChannel (this s))" and "queueRoutine_at s = Selecting"
    and "queuedJobs (this s) \<noteq> queueCapacity (this s)"
    and "\<not> closed (jobChannel (this s))"
    and "length (buf (jobChannel (this s))) < cap (jobChannel (this s))"
  shows "QueueJob g jober priority rc s =
           (Ok None,
            snd (queueRoutineEnqueue \<lparr>Jobber = jober, Priority = priority, ResultChannel = rc\<rparr> s))"
  using assms
  by (simp add: QueueJob_def QueueJob_body_def bind_go_def send_queueChannel_def catchPanic_def
      named_err_def Let_def queueRoutine_def after_handler_def enqueue_below_capacity
      recv_error_def)

lemma dequeueJob_closed:
  assumes "closed (dequeueChannel (this s))"
  shows "dequeueJob rc s =
           (Ok (None, Some (Errorf ''send on closed channel'')),
            emit (PanicLog ''jobRoutine'' ''jobPool.JobPool'' ''dequeueJob'' SendOnClosedChannel) s)"
  using assms
  by (simp add: dequeueJob_def dequeueJob_body_def bind_go_def send_dequeueChannel_def
      catchPanic_def named_err_def Let_def)

lemma dequeueJob_not_taken:
  assumes "\<not> closed (dequeueChannel (this s))" and "queueRoutine_at s \<noteq> Selecting"
  shows "dequeueJob rc s = (Blocked, s)"
  using assms
  by (simp add: dequeueJob_def dequeueJob_body_def bind_go_def send_dequeueChannel_def Let_def)

lemma dequeueJob_priority:
  assumes "\<not> closed (dequeueChannel (this s))" and "queueRoutine_at s = Selecting"
    and "priorityJobQueue (this s) = j # js"
  shows "dequeueJob rc s =
           (Ok (Some j, None),
            s\<lparr>this := (this s)\<lparr>priorityJobQueue := js, queuedJobs := queuedJobs (this s) - 1\<rparr>,
              trace := trace s @
                [DequeueRequest rc, RemovePriority, AddQueuedJobs (- 1), SendJob rc j]\<rparr>)"
  using assms
  by (simp add: dequeueJob_def dequeueJob_body_def bind_go_def send_dequeueChannel_def
      catchPanic_def named_err_def Let_def queueRoutine_def after_handler_def dequeue_priority
      recv_job_def emit_def)

lemma dequeueJob_normal:
  assumes "\<not> closed (dequeueChannel (this s))" and "queueRoutine_at s = Selecting"
    and "priorityJobQueue (this s) = []" and "normalJobQueue (this s) = j # js"
  shows "dequeueJob rc s =
           (Ok (Some j, None),
            s\<lparr>this := (this s)\<lparr>normalJobQueue := js, queuedJobs := queuedJobs (this s) - 1\<rparr>,
              trace := trace s @
                [DequeueRequest rc, RemoveNormal, AddQueuedJobs (- 1), SendJob rc j]\<rparr>)"
  using assms
  by (simp add: dequeueJob_def dequeueJob_body_def bind_go_def send_dequeueChannel_def
      catchPanic_def named_err_def Let_def queueRoutine_def after_handler_def dequeue_normal
      recv_job_def emit_def)

lemma dequeueJob_empty:
  assumes "\<not> closed (dequeueChannel (this s))" and "queueRoutine_at s = Selecting"
    and "priorityJobQueue (this s) = []" and "normalJobQueue (this s) = []"
  shows "dequeueJob rc s =
           (Blocked,
            s\<lparr>trace := trace s @
                [DequeueRequest rc,
                 PanicLog ''Queue'' ''jobPool.JobPool'' ''queueRoutineDequeue''
                   NilPointerDereference]\<rparr>)"
  using assms
  by (simp add: dequeueJob_def dequeueJob_body_def bind_go_def send_dequeueChannel_def
      catchPanic_def named_err_def Let_def queueRoutine_def after_handler_def dequeue_empty
      recv_job_def emit_def)


section \<open>The invariant of the pool\<close>

lemma count_update:
  "i < length xs \<Longrightarrow>
     length (filter P (xs[i := w])) + (if P (xs ! i) then 1 else 0) =
     length (filter P xs) + (if P w then 1 else 0)"
proof -
  assume i: "i < length xs"
  have upd: "xs[i := w] = take i xs @ w # drop (Suc i) xs"
    using i by (rule upd_conv_take_nth_drop)
  have "length (filter P xs) = length (filter P (take i xs @ xs ! i # drop (Suc i) xs))"
    using id_take_nth_drop [OF i] by simp
  then show ?thesis
    by (simp add: upd)
qed

lemma sint_neq:
  fixes q c :: int32
  shows "q \<noteq> c \<Longrightarrow> sint q \<noteq> sint c"
  using signed_word_eqI [of q c] by auto

lemma pool_inv_emit [simp]: "pool_inv (emit a s) = pool_inv s"
  by (simp add: pool_inv_def)

lemma pool_inv_room:
  assumes "pool_inv s" and "queueRoutine_at s = Selecting"
    and "queuedJobs (this s) \<noteq> queueCapacity (this s)"
  shows "\<not> closed (jobChannel (this s))"
    and "length (buf (jobChannel (this s))) < cap (jobChannel (this s))"
proof -
  show "\<not> closed (jobChannel (this s))"
    using assms(1,2) by (auto simp: pool_inv_def)
  have "sint (queuedJobs (this s)) < sint (queueCapacity (this s))"
    using assms(1) sint_neq [OF assms(3)] by (simp add: pool_inv_def queue_inv_def)
  moreover have "int (length (buf (jobChannel (this s)))) \<le> sint (queuedJobs (this s))"
    using assms(1) by (simp add: pool_inv_def)
  moreover have "cap (jobChannel (this s)) = nat (sint (queueCapacity (this s)))"
    using assms(1) by (simp add: pool_inv_def)
  ultimately show "length (buf (jobChannel (this s))) < cap (jobChannel (this s))"
    by simp
qed

lemma pool_inv_enqueue:
  assumes "pool_inv s" and "queueRoutine_at s = Selecting"
  shows "pool_inv (snd (queueRoutineEnqueue job s))"
    and "fst (queueRoutineEnqueue job s) = Ok ()"
    and "queueRoutine_at (snd (queueRoutineEnqueue job s)) = Selecting"
proof -
  have "pool_inv (snd (queueRoutineEnqueue job s))
      \<and> fst (queueRoutineEnqueue job s) = Ok ()
      \<and> queueRoutine_at (snd (queueRoutineEnqueue job s)) = Selecting"
  proof (cases "queuedJobs (this s) = queueCapacity (this s)")
    case True
    then show ?thesis using assms by (simp add: enqueue_at_capacity)
  next
    case False
    note room = pool_inv_room [OF assms False]
    have s1: "sint (queuedJobs (this s) + 1) = sint (queuedJobs (this s)) + 1"
      using assms(1) False by (intro sint_succ_below) (auto simp: pool_inv_def queue_inv_def)
    have lt: "sint (queuedJobs (this s)) < sint (queueCapacity (this s))"
      using assms(1) sint_neq [OF False] by (simp add: pool_inv_def queue_inv_def)
    show ?thesis
      using assms lt room
      by (simp add: enqueue_below_capacity [OF False room] pool_inv_def queue_inv_def s1)
  qed
  then show "pool_inv (snd (queueRoutineEnqueue job s))"
    and "fst (queueRoutineEnqueue job s) = Ok ()"
    and "queueRoutine_at (snd (queueRoutineEnqueue job s)) = Selecting"
    by simp_all
qed

lemma pool_inv_Submit:
  assumes "pool_inv s" and "step_Submit g jober priority rc s = Some s'"
  shows "pool_inv s'"
proof (cases "closed (queueChannel (this s))")
  case True
  then show ?thesis using assms by (auto simp: step_Submit_def QueueJob_closed)
next
  case opn: False
  show ?thesis
  proof (cases "queueRoutine_at s = Selecting")
    case False
    then show ?thesis using assms opn by (simp add: step_Submit_def QueueJob_not_taken)
  next
    case sel: True
    show ?thesis
    proof (cases "queuedJobs (this s) = queueCapacity (this s)")
      case True
      then show ?thesis using assms opn sel by (auto simp: step_Submit_def QueueJob_at_capacity)
    next
      case False
      note room = pool_inv_room [OF assms(1) sel False]
      have "s' = snd (queueRoutineEnqueue \<lparr>Jobber = jober, Priority = priority, ResultChannel = rc\<rparr> s)"
        using assms(2)
        by (simp add: step_Submit_def QueueJob_below_capacity [OF opn sel False room])
      then show ?thesis using pool_inv_enqueue(1) [OF assms(1) sel] by simp
    qed
  qed
qed

lemma pool_inv_WakeSent:
  assumes "pool_inv s" and "step_WakeSent s = Some s'"
  shows "pool_inv s'"
  using assms by (auto simp: step_WakeSent_def pool_inv_def split: if_splits)


lemma routine_Some:
  "routine i s = Some w \<longleftrightarrow> i < length (jobRoutine_at s) \<and> jobRoutine_at s ! i = w"
  by (simp add: routine_def)

lemma set_routine_simps [simp]:
  "this (set_routine i w s) = this s"
  "queueRoutine_at (set_routine i w s) = queueRoutine_at s"
  "jobRoutine_at (set_routine i w s) = (jobRoutine_at s)[i := w]"
  "trace (set_routine i w s) = trace s"
  by (simp_all add: set_routine_def)

lemma add_activeRoutines_simps [simp]:
  "this (snd (add_activeRoutines d s)) = (this s)\<lparr>activeRoutines := activeRoutines (this s) + d\<rparr>"
  "queueRoutine_at (snd (add_activeRoutines d s)) = queueRoutine_at s"
  "jobRoutine_at (snd (add_activeRoutines d s)) = jobRoutine_at s"
  "trace (snd (add_activeRoutines d s)) = trace s @ [AddActiveRoutines d]"
  by (simp_all add: add_activeRoutines_def)

lemma doJobSafely_deferred_simps [simp]:
  "this (doJobSafely_deferred r s) = (this s)\<lparr>activeRoutines := activeRoutines (this s) - 1\<rparr>"
  "queueRoutine_at (doJobSafely_deferred r s) = queueRoutine_at s"
  "jobRoutine_at (doJobSafely_deferred r s) = jobRoutine_at s"
  "trace (doJobSafely_deferred r s) =
     trace s @ AddActiveRoutines (- 1) #
       (case panic_of r of
          None \<Rightarrow> []
        | Some p \<Rightarrow> [PanicLog ''jobRoutine'' ''jobPool.JobPool'' ''doJobSafely'' p])"
  by (simp_all add: doJobSafely_deferred_def catchPanic_def split: option.splits)

lemma pool_inv_cong:
  assumes "priorityJobQueue (this s') = priorityJobQueue (this s)"
    and "normalJobQueue (this s') = normalJobQueue (this s)"
    and "queuedJobs (this s') = queuedJobs (this s)"
    and "queueCapacity (this s') = queueCapacity (this s)"
    and "jobChannel (this s') = jobChannel (this s)"
    and "shutdownJobChannel (this s') = shutdownJobChannel (this s)"
    and "queueRoutine_at s' = queueRoutine_at s"
    and "length (filter requesting (jobRoutine_at s')) \<le> length (filter requesting (jobRoutine_at s))"
    and "pool_inv s"
  shows "pool_inv s'"
  using assms by (auto simp: pool_inv_def queue_inv_def)

lemma pool_inv_TakeWake:
  assumes "pool_inv s" and "step_TakeWake i rc s = Some s'"
  shows "pool_inv s'"
proof -
  from assms(2) have w: "routine i s = Some Waiting"
    by (auto simp: step_TakeWake_def split: option.splits worker.splits)
  then have i: "i < length (jobRoutine_at s)" and at: "jobRoutine_at s ! i = Waiting"
    by (simp_all add: routine_Some)
  have cnt: "length (filter requesting ((jobRoutine_at s)[i := Requesting rc])) =
      Suc (length (filter requesting (jobRoutine_at s)))"
    using count_update [OF i, of requesting "Requesting rc"] at by simp
  show ?thesis
  proof (cases "buf (jobChannel (this s))")
    case (Cons m ms)
    then have "s' = set_routine i (Requesting rc)
        (snd (add_activeRoutines 1
          (s\<lparr>this := (this s)\<lparr>jobChannel := (jobChannel (this s))\<lparr>buf := ms\<rparr>\<rparr>\<rparr>)))"
      using assms(2) w by (simp add: step_TakeWake_def recv_jobChannel_def Let_def)
    then show ?thesis using assms(1) Cons cnt
      by (auto simp: pool_inv_def queue_inv_def)
  next
    case Nil
    show ?thesis
    proof (cases "closed (jobChannel (this s))")
      case False
      then show ?thesis using assms(2) w Nil
        by (simp add: step_TakeWake_def recv_jobChannel_def Let_def)
    next
      case True
      then have "s' = set_routine i (Requesting rc) (snd (add_activeRoutines 1 s))"
        using assms(2) w Nil by (simp add: step_TakeWake_def recv_jobChannel_def Let_def)
      then show ?thesis using assms(1) Nil True
        by (auto simp: pool_inv_def queue_inv_def)
    qed
  qed
qed

lemma pool_inv_JobEnds:
  assumes "pool_inv s" and "step_JobEnds i r s = Some s'"
  shows "pool_inv s'"
proof -
  from assms(2) obtain j where w: "routine i s = Some (Running j)"
    by (auto simp: step_JobEnds_def split: option.splits worker.splits)
  then have i: "i < length (jobRoutine_at s)" and at: "jobRoutine_at s ! i = Running j"
    by (simp_all add: routine_Some)
  have cnt: "length (filter requesting ((jobRoutine_at s)[i := Waiting])) =
      length (filter requesting (jobRoutine_at s))"
    using count_update [OF i, of requesting Waiting] at by simp
  have "s' = set_routine i Waiting (doJobSafely_deferred r s)"
    using assms(2) w by (simp add: step_JobEnds_def split: if_splits)
  then show ?thesis using assms(1) cnt
    by (auto simp: pool_inv_def queue_inv_def)
qed

lemma pool_inv_RoutineExits:
  assumes "pool_inv s" and "step_RoutineExits i s = Some s'"
  shows "pool_inv s'"
proof -
  from assms(2) have w: "routine i s = Some Waiting"
    by (auto simp: step_RoutineExits_def split: option.splits worker.splits)
  then have i: "i < length (jobRoutine_at s)" and at: "jobRoutine_at s ! i = Waiting"
    by (simp_all add: routine_Some)
  have cnt: "length (filter requesting ((jobRoutine_at s)[i := Exited])) =
      length (filter requesting (jobRoutine_at s))"
    using count_update [OF i, of requesting Exited] at by simp
  show ?thesis using assms w cnt
    by (auto simp: step_RoutineExits_def pool_inv_def queue_inv_def split: if_splits)
qed

lemma pool_inv_ShutdownReturns:
  assumes "pool_inv s" and "step_ShutdownReturns g s = Some s'"
  shows "pool_inv s'"
  using assms
  by (auto simp: step_ShutdownReturns_def Shutdown_after_Wait_def close_jobChannel_def
      writeStdout_def waiting_in_Shutdown_def close_chan_def pool_inv_def queue_inv_def
      split: if_splits)

lemma pool_inv_ShutdownCalled:
  assumes "pool_inv s" and "step_ShutdownCalled g s = Some s'"
  shows "pool_inv s'"
proof (cases "closed (shutdownQueueChannel (this s))")
  case True
  then show ?thesis using assms
    by (auto simp: step_ShutdownCalled_def Shutdown_until_Wait_def writeStdout_def
        shutdown_handshake_def catchPanic_def)
next
  case opn: False
  show ?thesis
  proof (cases "queueRoutine_at s = Selecting")
    case False
    then show ?thesis using assms opn
      by (auto simp: step_ShutdownCalled_def Shutdown_until_Wait_def writeStdout_def
          shutdown_handshake_def)
  next
    case True
    then show ?thesis using assms opn
      by (auto simp: step_ShutdownCalled_def Shutdown_until_Wait_def writeStdout_def
          shutdown_handshake_def queueRoutine_def close_queue_channels_def
          close_shutdownJobChannel_def close_chan_def pool_inv_def queue_inv_def)
  qed
qed


lemma pool_inv_nonempty:
  assumes "pool_inv s" and "queueRoutine_at s = Selecting"
    and "i < length (jobRoutine_at s)" and "jobRoutine_at s ! i = Requesting rc"
  shows "0 < sint (queuedJobs (this s))"
    and "priorityJobQueue (this s) \<noteq> [] \<or> normalJobQueue (this s) \<noteq> []"
    and "int (length (buf (jobChannel (this s)))) < sint (queuedJobs (this s))"
proof -
  have "requesting (jobRoutine_at s ! i)" using assms(4) by simp
  then have "jobRoutine_at s ! i \<in> set (filter requesting (jobRoutine_at s))"
    using assms(3) by simp
  then have ne: "filter requesting (jobRoutine_at s) \<noteq> []" by (metis empty_iff empty_set)
  show "int (length (buf (jobChannel (this s)))) < sint (queuedJobs (this s))"
    using assms(1,2) ne by (cases "filter requesting (jobRoutine_at s)") (auto simp: pool_inv_def)
  then show q: "0 < sint (queuedJobs (this s))" by simp
  then show "priorityJobQueue (this s) \<noteq> [] \<or> normalJobQueue (this s) \<noteq> []"
    using assms(1) by (auto simp: pool_inv_def queue_inv_def)
qed

lemma after_dequeueJob_job:
  "after_dequeueJob not_returned n (Some j, None) s = (Blocked, emit (RunJob (Jobber j) n) s)"
  by (simp add: after_dequeueJob_def call_RunJob_def not_returned_def)

lemma after_dequeueJob_err:
  "after_dequeueJob run n (q, Some e) s =
     (Ok (), emit (Stdout ''Queue'' ''jobpool.JobPool'' ''doJobSafely'' (''ERROR : '' @ error_text e)) s)"
  by (simp add: after_dequeueJob_def writeStdout_def)

lemma pool_inv_Serve:
  assumes "pool_inv s" and "step_Serve i s = Some s'"
  shows "pool_inv s' \<and> routine i s' \<noteq> Some Stuck"
proof -
  from assms(2) obtain rc where w: "routine i s = Some (Requesting rc)"
    by (auto simp: step_Serve_def split: option.splits worker.splits)
  then have i: "i < length (jobRoutine_at s)" and at: "jobRoutine_at s ! i = Requesting rc"
    by (simp_all add: routine_Some)
  have cntW: "Suc (length (filter requesting ((jobRoutine_at s)[i := Waiting]))) =
      length (filter requesting (jobRoutine_at s))"
    using count_update [OF i, of requesting Waiting] at by simp
  have cntR: "\<And>j. Suc (length (filter requesting ((jobRoutine_at s)[i := Running j]))) =
      length (filter requesting (jobRoutine_at s))"
    using count_update [OF i, of requesting "Running _"] at by simp
  show ?thesis
  proof (cases "closed (dequeueChannel (this s))")
    case True
    have "s' = set_routine i Waiting (doJobSafely_deferred (Ok ())
        (emit (Stdout ''Queue'' ''jobpool.JobPool'' ''doJobSafely''
                 (''ERROR : '' @ ''send on closed channel''))
           (emit (PanicLog ''jobRoutine'' ''jobPool.JobPool'' ''dequeueJob'' SendOnClosedChannel) s)))"
      using assms(2) w True
      by (simp add: step_Serve_def dequeueJob_closed after_dequeueJob_err)
    then show ?thesis using assms(1) cntW i
      by (auto simp: pool_inv_def queue_inv_def routine_def)
  next
    case opn: False
    show ?thesis
    proof (cases "queueRoutine_at s = Selecting")
      case False
      then show ?thesis using assms(2) w opn
        by (simp add: step_Serve_def dequeueJob_not_taken)
    next
      case sel: True
      note ne = pool_inv_nonempty [OF assms(1) sel i at]
      have pred: "sint (queuedJobs (this s) - 1) = sint (queuedJobs (this s)) - 1"
        using ne(1) by (rule sint_pred_pos)
      show ?thesis
      proof (cases "priorityJobQueue (this s)")
        case (Cons j js)
        have "s' = set_routine i (Running j) (emit (RunJob (Jobber j) (int i))
          (s\<lparr>this := (this s)\<lparr>priorityJobQueue := js, queuedJobs := queuedJobs (this s) - 1\<rparr>,
              trace := trace s @
                [DequeueRequest rc, RemovePriority, AddQueuedJobs (- 1), SendJob rc j]\<rparr>))"
          using assms(2) w
          by (simp add: step_Serve_def dequeueJob_priority [OF opn sel Cons] after_dequeueJob_job)
        then show ?thesis using assms(1) cntR [of j] i Cons ne(3) pred
          by (auto simp: pool_inv_def queue_inv_def routine_def)
      next
        case Nil
        then obtain j js where Cons: "normalJobQueue (this s) = j # js"
          using ne(2) by (cases "normalJobQueue (this s)") auto
        have "s' = set_routine i (Running j) (emit (RunJob (Jobber j) (int i))
          (s\<lparr>this := (this s)\<lparr>normalJobQueue := js, queuedJobs := queuedJobs (this s) - 1\<rparr>,
              trace := trace s @
                [DequeueRequest rc, RemoveNormal, AddQueuedJobs (- 1), SendJob rc j]\<rparr>))"
          using assms(2) w
          by (simp add: step_Serve_def dequeueJob_normal [OF opn sel Nil Cons] after_dequeueJob_job)
        then show ?thesis using assms(1) cntR [of j] i Cons Nil ne(3) pred
          by (auto simp: pool_inv_def queue_inv_def routine_def)
      qed
    qed
  qed
qed

lemma pool_inv_step:
  assumes "pool_inv s" and "step l s = Some s'"
  shows "pool_inv s'"
proof (cases l)
  case (Submit g jober priority rc)
  then show ?thesis using assms pool_inv_Submit by simp
next
  case WakeSent
  then show ?thesis using assms pool_inv_WakeSent by simp
next
  case (TakeWake i rc)
  then show ?thesis using assms pool_inv_TakeWake by simp
next
  case (Serve i)
  then show ?thesis using assms pool_inv_Serve [of s i s'] by simp
next
  case (JobEnds i r)
  then show ?thesis using assms pool_inv_JobEnds by simp
next
  case (ShutdownCalled g)
  then show ?thesis using assms pool_inv_ShutdownCalled by simp
next
  case (RoutineExits i)
  then show ?thesis using assms pool_inv_RoutineExits by simp
next
  case (ShutdownReturns g)
  then show ?thesis using assms pool_inv_ShutdownReturns by simp
qed

lemma pool_inv_exec:
  assumes "pool_inv s" and "exec ls s = Some s'"
  shows "pool_inv s'"
  using assms
proof (induction ls arbitrary: s)
  case Nil
  then show ?case by simp
next
  case (Cons l ls)
  then obtain s1 where s1: "step l s = Some s1" and rest: "exec ls s1 = Some s'"
    by (auto split: option.splits)
  from Cons.prems(1) s1 have "pool_inv s1" by (rule pool_inv_step)
  then show ?case using rest by (rule Cons.IH)
qed

lemma New_inv:
  assumes "New n c = Inr s"
  shows "pool_inv s" and "0 \<le> sint c" and "queueCapacity (this s) = c"
    and "queueRoutine_at s = Selecting" and "trace s = []" and "queuedJobs (this s) = 0"
    and "jobRoutine_at s = replicate (nat n) Waiting"
    and "buf (jobChannel (this s)) = []"
    and "\<not> closed (queueChannel (this s))"
proof -
  from assms have c: "0 \<le> sint c"
    by (auto simp: New_def make_chan_def split: if_splits)
  then have s: "s = \<lparr>this = \<lparr>priorityJobQueue = [],
                        normalJobQueue = [],
                        queueChannel = make_unbuffered,
                        dequeueChannel = make_unbuffered,
                        shutdownQueueChannel = make_unbuffered,
                        jobChannel = \<lparr>buf = [], cap = nat (sint c), closed = False\<rparr>,
                        shutdownJobChannel = make_unbuffered,
                        shutdownWaitGroup = int (nat n),
                        queuedJobs = 0,
                        activeRoutines = 0,
                        queueCapacity = c\<rparr>,
               queueRoutine_at = Selecting,
               jobRoutine_at = replicate (nat n) Waiting,
               trace = []\<rparr>"
    using assms by (auto simp: New_def make_chan_def split: if_splits)
  show "0 \<le> sint c" by (rule c)
  show "pool_inv s" using c by (simp add: s pool_inv_def queue_inv_def make_unbuffered_def)
  show "queueCapacity (this s) = c" "queueRoutine_at s = Selecting" "trace s = []"
    "queuedJobs (this s) = 0" "jobRoutine_at s = replicate (nat n) Waiting"
    "buf (jobChannel (this s)) = []" "\<not> closed (queueChannel (this s))"
    by (simp_all add: s make_unbuffered_def)
qed


section \<open>What the queue routine and the callers leave alone\<close>

lemma keepsD: "keeps p f \<Longrightarrow> p (snd (f s)) = p s"
  by (simp add: keeps_def)

lemma keeps_bind:
  assumes "keeps p m" and "\<And>a. keeps p (k a)"
  shows "keeps p (bind_go m k)"
  unfolding keeps_def
proof
  fix s
  obtain r s1 where m: "m s = (r, s1)" by (cases "m s")
  have s1: "p s1 = p s" using keepsD [OF assms(1), of s] m by simp
  show "p (snd (bind_go m k s)) = p s"
  proof (cases r)
    case (Ok a)
    then show ?thesis using m s1 keepsD [OF assms(2), of a s1] by (simp add: bind_go_def)
  next
    case (Panicked x)
    then show ?thesis using m s1 by (simp add: bind_go_def)
  next
    case Blocked
    then show ?thesis using m s1 by (simp add: bind_go_def)
  qed
qed

lemma keeps_block:
  assumes "\<And>c. c \<in> set cs \<Longrightarrow> keeps p c"
  shows "keeps p (block cs)"
  using assms
proof (induction cs)
  case Nil
  show ?case by (simp add: keeps_def)
next
  case (Cons c cs)
  have c: "keeps p c" using Cons.prems by simp
  have cs: "keeps p (block cs)" using Cons by simp
  show ?case
    unfolding keeps_def
  proof
    fix s
    obtain r s1 where m: "c s = (r, s1)" by (cases "c s")
    have s1: "p s1 = p s" using keepsD [OF c, of s] m by simp
    show "p (snd (block (c # cs) s)) = p s"
      using m s1 keepsD [OF cs, of s1] by (cases r) simp_all
  qed
qed

lemma frame_emit [simp]: "frame (emit a s) = frame s"
  by (simp add: frame_def)

lemma keeps_frame_statements:
  "keeps frame (writeStdout g n f m)"
  "keeps frame (add_queuedJobs d)"
  "keeps frame (pushBack_priority j)"
  "keeps frame (pushBack_normal j)"
  "keeps frame (send_error rc e)"
  "keeps frame (send_job rc j)"
  "keeps frame (send_jobChannel m)"
  "keeps frame (element_Value v)"
  "keeps frame (recv_error rc k)"
  "keeps frame (recv_job rc k)"
  "keeps frame close_queue_channels"
  "keeps frame close_shutdownJobChannel"
  "keeps frame close_jobChannel"
  by (simp_all add: keeps_def frame_def writeStdout_def add_queuedJobs_def pushBack_priority_def
      pushBack_normal_def send_error_def send_job_def send_jobChannel_def element_Value_def
      front_remove_priority_def front_remove_normal_def recv_error_def recv_job_def
      close_queue_channels_def close_shutdownJobChannel_def close_jobChannel_def Let_def
      split: option.splits list.splits result.splits)

lemma keeps_frame_front_remove:
  "keeps frame (front_remove_priority :: ('a, 'a queueJob option) go)"
  "keeps frame (front_remove_normal :: ('a, 'a queueJob option) go)"
  by (simp_all add: keeps_def frame_def front_remove_priority_def front_remove_normal_def
      Let_def split: result.splits)

lemma keeps_frame_defer:
  assumes "keeps frame body"
  shows "keeps frame (defer_catchPanic_nil g n f body)"
  unfolding keeps_def
proof
  fix s
  obtain r s1 where m: "body s = (r, s1)" by (cases "body s")
  have s1: "frame s1 = frame s" using keepsD [OF assms, of s] m by simp
  show "frame (snd (defer_catchPanic_nil g n f body s)) = frame s"
    using m s1 by (cases r) (simp_all add: defer_catchPanic_nil_def catchPanic_def)
qed

lemma keeps_frame_Enqueue: "keeps frame (queueRoutineEnqueue job)"
proof -
  have "keeps frame (queueRoutineEnqueue_body job)"
    unfolding keeps_def
  proof
    fix s
    have b: "keeps frame (block [
          (if Priority job = True then pushBack_priority job else pushBack_normal job),
          add_queuedJobs 1,
          send_error (ResultChannel job) None,
          send_jobChannel ''Wake Up''])"
      by (rule keeps_block) (auto simp: keeps_frame_statements)
    show "frame (snd (queueRoutineEnqueue_body job s)) = frame s"
      using keepsD [OF b, of s] keepsD [OF keeps_frame_statements(5), of _ _ s]
      by (simp add: queueRoutineEnqueue_body_def)
  qed
  then show ?thesis unfolding queueRoutineEnqueue_def by (rule keeps_frame_defer)
qed

lemma keeps_frame_Dequeue: "keeps frame (queueRoutineDequeue d :: ('a, unit) go)"
proof -
  have f: "keeps frame (\<lambda>s :: 'a world.
            if length (priorityJobQueue (this s)) > 0 then front_remove_priority s
            else front_remove_normal s)"
    by (simp add: keeps_def frame_def front_remove_priority_def front_remove_normal_def
        Let_def split: result.splits)
  have "keeps frame (queueRoutineDequeue_body d :: ('a, unit) go)"
    unfolding queueRoutineDequeue_body_def
    by (intro keeps_bind f keeps_frame_statements)
  then show ?thesis unfolding queueRoutineDequeue_def by (rule keeps_frame_defer)
qed

lemma frame_after_handler:
  "frame (after_handler rs) = frame (snd rs)"
  by (cases rs; cases "fst rs") (simp_all add: after_handler_def frame_def)

lemma frame_queueRoutine [simp]: "frame (queueRoutine m s) = frame s"
  using keepsD [OF keeps_frame_Enqueue] keepsD [OF keeps_frame_Dequeue]
  by (cases m) (simp_all add: queueRoutine_def frame_after_handler, simp add: frame_def)

lemma keeps_frame_sends:
  "keeps frame (send_queueChannel job)"
  "keeps frame (send_dequeueChannel d)"
  "keeps frame shutdown_handshake"
  by (simp_all add: keeps_def send_queueChannel_def send_dequeueChannel_def
      shutdown_handshake_def)

lemma keeps_frame_QueueJob: "keeps frame (QueueJob g (jober :: 'a) priority rc)"
proof -
  have b: "keeps frame (QueueJob_body (jober :: 'a) priority rc)"
    unfolding keeps_def
  proof
    fix s :: "'a world"
    have "keeps frame (bind_go
        (send_queueChannel \<lparr>Jobber = jober, Priority = priority, ResultChannel = rc\<rparr>)
        (\<lambda>_. recv_error rc (length (trace s))))"
      by (intro keeps_bind keeps_frame_sends keeps_frame_statements)
    then show "frame (snd (QueueJob_body jober priority rc s)) = frame s"
      by (simp add: QueueJob_body_def Let_def keeps_def)
  qed
  show ?thesis
    unfolding keeps_def
  proof
    fix s :: "'a world"
    obtain r s1 where m: "QueueJob_body jober priority rc s = (r, s1)"
      by (cases "QueueJob_body jober priority rc s")
    have s1: "frame s1 = frame s" using keepsD [OF b, of s] m by simp
    show "frame (snd (QueueJob g jober priority rc s)) = frame s"
      using m s1 by (cases r) (simp_all add: QueueJob_def catchPanic_def Let_def)
  qed
qed

lemma keeps_frame_dequeueJob: "keeps frame (dequeueJob rc :: ('a, 'a queueJob option \<times> error option) go)"
proof -
  have b: "keeps frame (dequeueJob_body rc :: ('a, 'a queueJob option) go)"
    unfolding keeps_def
  proof
    fix s :: "'a world"
    have "keeps frame (bind_go (send_dequeueChannel \<lparr>ResultChannel_dq = rc\<rparr>)
        (\<lambda>_. recv_job rc (length (trace s)) :: ('a, 'a queueJob option) go))"
      by (intro keeps_bind keeps_frame_sends keeps_frame_statements)
    then show "frame (snd (dequeueJob_body rc s)) = frame s"
      by (simp add: dequeueJob_body_def Let_def keeps_def)
  qed
  show ?thesis
    unfolding keeps_def
  proof
    fix s :: "'a world"
    obtain r s1 where m: "dequeueJob_body rc s = (r, s1)"
      by (cases "dequeueJob_body rc s")
    have s1: "frame s1 = frame s" using keepsD [OF b, of s] m by simp
    show "frame (snd (dequeueJob rc s)) = frame s"
      using m s1 by (cases r) (simp_all add: dequeueJob_def catchPanic_def Let_def)
  qed
qed

lemma keeps_frame_Shutdown_until_Wait: "keeps frame (Shutdown_until_Wait g)"
  unfolding Shutdown_until_Wait_def
  by (rule keeps_block) (auto simp: keeps_frame_statements keeps_frame_sends)

lemma keeps_frame_Shutdown_after_Wait: "keeps frame (Shutdown_after_Wait g)"
  unfolding Shutdown_after_Wait_def
  by (rule keeps_block) (auto simp: keeps_frame_statements)


lemma keeps_frame_recv_jobChannel: "keeps frame recv_jobChannel"
  by (simp add: keeps_def frame_def recv_jobChannel_def Let_def split: list.splits)

lemma keeps_frame_after_dequeueJob: "keeps frame (after_dequeueJob run n qe)"
  by (cases qe)
     (simp add: keeps_def after_dequeueJob_def writeStdout_def call_RunJob_def
        split: option.splits)

lemma movedI:
  assumes "routine k s = Some w" and "w \<noteq> Stuck"
    and "jobRoutine_at s' = (jobRoutine_at s)[k := w']"
    and "activeRoutines (this s') + (if in_doJobSafely w then 1 else 0) =
            activeRoutines (this s) + (if in_doJobSafely w' then 1 else 0)"
    and "queueCapacity (this s') = queueCapacity (this s)"
  shows "moved s s'"
  unfolding moved_def using assms by blast

lemma step_Submit_frame:
  assumes "step_Submit g jober priority rc s = Some s'"
  shows "frame s' = frame s"
proof -
  have "s' = snd (QueueJob g jober priority rc s)"
    using assms by (auto simp: step_Submit_def split: prod.splits result.splits)
  then show ?thesis using keepsD [OF keeps_frame_QueueJob] by simp
qed

lemma step_WakeSent_frame:
  assumes "step_WakeSent s = Some s'"
  shows "frame s' = frame s"
proof -
  have k: "keeps frame (defer_catchPanic_nil ''Queue'' ''jobPool.JobPool'' ''queueRoutineEnqueue''
                (send_jobChannel ''Wake Up'' :: ('a, unit) go))"
    by (intro keeps_frame_defer keeps_frame_statements)
  have "s' = after_handler (defer_catchPanic_nil ''Queue'' ''jobPool.JobPool''
      ''queueRoutineEnqueue'' (send_jobChannel ''Wake Up'') s)"
    using assms by (auto simp: step_WakeSent_def split: if_splits prod.splits result.splits)
  then show ?thesis using keepsD [OF k, of s] by (simp add: frame_after_handler)
qed

lemma step_ShutdownCalled_frame:
  assumes "step_ShutdownCalled g s = Some s'"
  shows "frame s' = frame s"
proof -
  obtain r s1 where m: "Shutdown_until_Wait g s = (r, s1)"
    by (cases "Shutdown_until_Wait g s")
  have s1: "frame s1 = frame s" using keepsD [OF keeps_frame_Shutdown_until_Wait, of g s] m by simp
  show ?thesis using assms m s1
    by (cases r) (auto simp: step_ShutdownCalled_def catchPanic_def)
qed

lemma step_ShutdownReturns_frame:
  assumes "step_ShutdownReturns g s = Some s'"
  shows "frame s' = frame s"
proof -
  have "s' = snd (Shutdown_after_Wait g s)"
    using assms by (auto simp: step_ShutdownReturns_def split: if_splits prod.splits result.splits)
  then show ?thesis using keepsD [OF keeps_frame_Shutdown_after_Wait] by simp
qed

lemma step_TakeWake_moved:
  assumes "step_TakeWake i rc s = Some s'"
  shows "moved s s'"
proof -
  from assms have w: "routine i s = Some Waiting"
    by (auto simp: step_TakeWake_def split: option.splits worker.splits)
  obtain r s1 where m: "recv_jobChannel s = (r, s1)" by (cases "recv_jobChannel s")
  have s1: "frame s1 = frame s" using keepsD [OF keeps_frame_recv_jobChannel, of s] m by simp
  have "s' = set_routine i (Requesting rc) (snd (add_activeRoutines 1 s1))"
    using assms w m by (cases r) (simp_all add: step_TakeWake_def)
  then show ?thesis using s1
    by (intro movedI [OF w, where w' = "Requesting rc"]) (simp_all add: frame_def)
qed

lemma step_JobEnds_moved:
  assumes "step_JobEnds i r s = Some s'"
  shows "moved s s'"
proof -
  from assms obtain j where w: "routine i s = Some (Running j)"
    by (auto simp: step_JobEnds_def split: option.splits worker.splits)
  have "s' = set_routine i Waiting (doJobSafely_deferred r s)"
    using assms w by (simp add: step_JobEnds_def split: if_splits)
  then show ?thesis
    by (intro movedI [OF w, where w' = Waiting]) simp_all
qed

lemma step_RoutineExits_moved:
  assumes "step_RoutineExits i s = Some s'"
  shows "moved s s'"
proof -
  from assms have w: "routine i s = Some Waiting"
    by (auto simp: step_RoutineExits_def split: option.splits worker.splits)
  show ?thesis using assms w
    by (intro movedI [OF w, where w' = Exited]) (auto simp: step_RoutineExits_def split: if_splits)
qed

lemma step_Serve_moved:
  assumes "step_Serve i s = Some s'"
  shows "moved s s'"
proof -
  from assms obtain rc where w: "routine i s = Some (Requesting rc)"
    by (auto simp: step_Serve_def split: option.splits worker.splits)
  obtain r s1 where m: "dequeueJob rc s = (r, s1)" by (cases "dequeueJob rc s")
  have s1: "frame s1 = frame s" using keepsD [OF keeps_frame_dequeueJob, of rc s] m by simp
  show ?thesis
  proof (cases r)
    case Blocked
    then have "s' = set_routine i Stuck s1"
      using assms w m by (simp add: step_Serve_def split: if_splits)
    then show ?thesis using s1
      by (intro movedI [OF w, where w' = Stuck]) (simp_all add: frame_def)
  next
    case (Panicked x)
    then show ?thesis using assms w m by (simp add: step_Serve_def)
  next
    case (Ok qe)
    obtain r2 s2 where m2: "after_dequeueJob not_returned (int i) qe s1 = (r2, s2)"
      by (cases "after_dequeueJob not_returned (int i) qe s1")
    have s2: "frame s2 = frame s"
      using keepsD [OF keeps_frame_after_dequeueJob, of not_returned "int i" qe s1] m2 s1 by simp
    obtain q e where qe: "qe = (q, e)" by (cases qe)
    show ?thesis
    proof (cases r2)
      case Blocked
      then obtain j where "s' = set_routine i (Running j) s2"
        using assms w m Ok m2 qe by (auto simp: step_Serve_def split: option.splits)
      then show ?thesis using s2
        by (intro movedI [OF w, where w' = "Running j"]) (simp_all add: frame_def)
    next
      case (Panicked x)
      then have "s' = set_routine i Waiting (doJobSafely_deferred r2 s2)"
        using assms w m Ok m2 qe by (auto simp: step_Serve_def)
      then show ?thesis using s2
        by (intro movedI [OF w, where w' = Waiting]) (simp_all add: frame_def)
    next
      case Ok2: (Ok u)
      then have "s' = set_routine i Waiting (doJobSafely_deferred r2 s2)"
        using assms w m Ok m2 qe by (auto simp: step_Serve_def)
      then show ?thesis using s2
        by (intro movedI [OF w, where w' = Waiting]) (simp_all add: frame_def)
    qed
  qed
qed

lemma step_frame_or_moved:
  assumes "step l s = Some s'"
  shows "frame s' = frame s \<or> moved s s'"
proof (cases l)
  case (Submit g jober priority rc)
  then show ?thesis using assms step_Submit_frame [of g jober priority rc s s'] by simp
next
  case WakeSent
  then show ?thesis using assms step_WakeSent_frame [of s s'] by simp
next
  case (TakeWake i rc)
  then show ?thesis using assms step_TakeWake_moved [of i rc s s'] by simp
next
  case (Serve i)
  then show ?thesis using assms step_Serve_moved [of i s s'] by simp
next
  case (JobEnds i r)
  then show ?thesis using assms step_JobEnds_moved [of i r s s'] by simp
next
  case (ShutdownCalled g)
  then show ?thesis using assms step_ShutdownCalled_frame [of g s s'] by simp
next
  case (RoutineExits i)
  then show ?thesis using assms step_RoutineExits_moved [of i s s'] by simp
next
  case (ShutdownReturns g)
  then show ?thesis using assms step_ShutdownReturns_frame [of g s s'] by simp
qed

lemma step_capacity:
  assumes "step l s = Some s'"
  shows "queueCapacity (this s') = queueCapacity (this s)"
  using step_frame_or_moved [OF assms] by (auto simp: frame_def moved_def)

lemma step_Stuck:
  assumes "step l s = Some s'" and "routine i s = Some Stuck"
  shows "routine i s' = Some Stuck"
  using step_frame_or_moved [OF assms(1)]
proof
  assume "frame s' = frame s"
  then show ?thesis using assms(2) by (auto simp: frame_def routine_def split: if_splits)
next
  assume "moved s s'"
  then obtain k w w' where k: "routine k s = Some w" "w \<noteq> Stuck"
    and jr: "jobRoutine_at s' = (jobRoutine_at s)[k := w']"
    unfolding moved_def by blast
  have "k \<noteq> i" using k assms(2) by auto
  then show ?thesis using assms(2) jr by (auto simp: routine_def split: if_splits)
qed

lemma step_active_inv:
  assumes "step l s = Some s'" and "active_inv s"
  shows "active_inv s'"
  using step_frame_or_moved [OF assms(1)]
proof
  assume "frame s' = frame s"
  then show ?thesis using assms(2) by (simp add: frame_def active_inv_def)
next
  assume "moved s s'"
  then obtain k w w' where k: "routine k s = Some w"
    and jr: "jobRoutine_at s' = (jobRoutine_at s)[k := w']"
    and ar: "activeRoutines (this s') + (if in_doJobSafely w then 1 else 0) =
            activeRoutines (this s) + (if in_doJobSafely w' then 1 else 0)"
    unfolding moved_def by blast
  from k have kl: "k < length (jobRoutine_at s)" and at: "jobRoutine_at s ! k = w"
    by (simp_all add: routine_Some)
  have cnt: "length (filter in_doJobSafely ((jobRoutine_at s)[k := w'])) +
      (if in_doJobSafely w then 1 else 0) =
      length (filter in_doJobSafely (jobRoutine_at s)) + (if in_doJobSafely w' then 1 else 0)"
    using count_update [OF kl, of in_doJobSafely w'] at by simp
  have "(word_of_nat (length (filter in_doJobSafely ((jobRoutine_at s)[k := w'])) +
      (if in_doJobSafely w then 1 else 0)) :: int32) =
      word_of_nat (length (filter in_doJobSafely (jobRoutine_at s)) +
        (if in_doJobSafely w' then 1 else 0))"
    using cnt by simp
  then have "(word_of_nat (length (filter in_doJobSafely ((jobRoutine_at s)[k := w']))) :: int32)
      + (if in_doJobSafely w then 1 else 0) =
      activeRoutines (this s) + (if in_doJobSafely w' then 1 else 0)"
    using assms(2) by (simp add: active_inv_def split: if_splits)
  with ar have "activeRoutines (this s') + (if in_doJobSafely w then 1 else 0) =
      (word_of_nat (length (filter in_doJobSafely ((jobRoutine_at s)[k := w']))) :: int32)
      + (if in_doJobSafely w then 1 else 0)"
    by simp
  then have "activeRoutines (this s') =
      word_of_nat (length (filter in_doJobSafely ((jobRoutine_at s)[k := w'])))"
    by simp
  then show ?thesis using jr by (simp add: active_inv_def)
qed

lemma exec_invariants:
  assumes "exec ls s = Some s'"
  shows "queueCapacity (this s') = queueCapacity (this s)"
    and "active_inv s \<Longrightarrow> active_inv s'"
    and "routine i s = Some Stuck \<Longrightarrow> routine i s' = Some Stuck"
  using assms
proof (induction ls arbitrary: s)
  case Nil
  { case 1 then show ?case by simp }
  { case 2 then show ?case by simp }
  { case 3 then show ?case by simp }
next
  case (Cons l ls)
  { case 1
    then obtain s1 where s1: "step l s = Some s1" and rest: "exec ls s1 = Some s'"
      by (auto split: option.splits)
    show ?case using Cons.IH(1) [OF rest] step_capacity [OF s1] by simp }
  { case 2
    then obtain s1 where s1: "step l s = Some s1" and rest: "exec ls s1 = Some s'"
      by (auto split: option.splits)
    show ?case using Cons.IH(2) [OF _ rest] step_active_inv [OF s1] 2 by simp }
  { case 3
    then obtain s1 where s1: "step l s = Some s1" and rest: "exec ls s1 = Some s'"
      by (auto split: option.splits)
    show ?case using Cons.IH(3) [OF _ rest] step_Stuck [OF s1] 3 by simp }
qed

section \<open>Concrete pools\<close>

lemmas go_defs =
  QueueJob_def QueueJob_body_def bind_go_def send_queueChannel_def send_dequeueChannel_def
  queueRoutine_def after_handler_def queueRoutineEnqueue_def queueRoutineEnqueue_body_def
  queueRoutineDequeue_def queueRoutineDequeue_body_def defer_catchPanic_nil_def catchPanic_def
  send_error_def send_job_def send_jobChannel_def pushBack_priority_def pushBack_normal_def
  add_queuedJobs_def add_activeRoutines_def front_remove_priority_def front_remove_normal_def
  element_Value_def list_Front_def list_Remove_def list_PushBack_def recv_error_def recv_job_def
  named_err_def emit_def dequeueJob_def dequeueJob_body_def doJobSafely_def doJobSafely_body_def
  doJobSafely_deferred_def after_dequeueJob_def call_RunJob_def writeStdout_def
  recv_jobChannel_def QueuedJobs_def ActiveRoutines_def

lemma New_small: "New 2 1 = Inr small_pool"
  by (simp add: New_def make_chan_def make_unbuffered_def small_pool_def numeral_2_eq_2)

lemma New_fresh: "New 1 10 = Inr fresh_pool"
  by (simp add: New_def make_chan_def make_unbuffered_def fresh_pool_def)

lemma small_A:
  "submitted ''A'' False 100 small_pool =
     small_pool\<lparr>this := (this small_pool)\<lparr>normalJobQueue := [\<lparr>Jobber = ''A'', Priority = False, ResultChannel = 100\<rparr>],
         queuedJobs := 1, jobChannel := \<lparr>buf = [''Wake Up''], cap = 1, closed = False\<rparr>\<rparr>,
       trace := [PushBackNormal \<lparr>Jobber = ''A'', Priority = False, ResultChannel = 100\<rparr>,
                 AddQueuedJobs 1, SendError 100 None, SendWake ''Wake Up'']\<rparr>"
  by (simp add: submitted_def small_pool_def go_defs Let_def List.map_filter_simps)

section \<open>The claims\<close>

text \<open>
  C1. In every state where \<^verbatim>\<open>queuedJobs\<close> equals \<^verbatim>\<open>queueCapacity\<close>, the enqueue handler
  answers the request with the error \<^verbatim>\<open>Job Pool At Capacity\<close> and changes nothing of the
  pool (neither queue, nor the counter); \<^verbatim>\<open>QueueJob\<close>, when the queue routine takes its
  request, returns that error, and \<^verbatim>\<open>QueuedJobs()\<close> is what it was.
\<close>

theorem submit_at_capacity:
  assumes "QueuedJobs s = queueCapacity (this s)"
  shows "queueRoutineEnqueue job s =
           (Ok (), emit (SendError (ResultChannel job) (Some (Errorf ''Job Pool At Capacity''))) s)
       \<and> this (snd (queueRoutineEnqueue job s)) = this s
       \<and> QueuedJobs (snd (queueRoutineEnqueue job s)) = QueuedJobs s
       \<and> (queueRoutine_at s = Selecting \<and> \<not> closed (queueChannel (this s)) \<longrightarrow>
            fst (QueueJob g jober priority rc s) = Ok (Some (Errorf ''Job Pool At Capacity''))
            \<and> this (snd (QueueJob g jober priority rc s)) = this s
            \<and> QueuedJobs (snd (QueueJob g jober priority rc s)) = QueuedJobs s)"
proof -
  have q: "queuedJobs (this s) = queueCapacity (this s)"
    using assms by (simp add: QueuedJobs_def)
  show ?thesis
    by (simp add: enqueue_at_capacity [OF q] QueueJob_at_capacity [OF _ _ q] QueuedJobs_def)
qed

theorem submit_at_capacity_witness:
  "QueuedJobs (submitted ''A'' False 100 small_pool) =
     queueCapacity (this (submitted ''A'' False 100 small_pool))
   \<and> queueRoutine_at (submitted ''A'' False 100 small_pool) = Selecting
   \<and> \<not> closed (queueChannel (this (submitted ''A'' False 100 small_pool)))
   \<and> fst (QueueJob ''main'' ''B'' False 101 (submitted ''A'' False 100 small_pool)) =
       Ok (Some (Errorf ''Job Pool At Capacity''))
   \<and> sint (QueuedJobs (snd (QueueJob ''main'' ''B'' False 101 (submitted ''A'' False 100 small_pool)))) = 1
   \<and> this (snd (QueueJob ''main'' ''B'' False 101 (submitted ''A'' False 100 small_pool))) =
       this (submitted ''A'' False 100 small_pool)"
  using submit_at_capacity [of "submitted ''A'' False 100 small_pool" _ "''main''" "''B''" False 101]
  unfolding small_A by (simp add: small_pool_def QueuedJobs_def)

lemma dequeue_body_panic:
  assumes "fst (queueRoutineDequeue_body d s) = Panicked r"
  shows "queueRoutineDequeue_body d s = (Panicked NilPointerDereference, s)"
    and "r = NilPointerDereference"
proof -
  note e = dequeue_body_panics_only_when_empty [OF assms]
  show "queueRoutineDequeue_body d s = (Panicked NilPointerDereference, s)"
    using e by (simp add: dequeue_body_empty)
  then show "r = NilPointerDereference" using assms by simp
qed

lemma no_panic_leaves_defer:
  "fst (defer_catchPanic_nil g n f body s) \<noteq> Panicked p"
proof -
  obtain r s1 where m: "body s = (r, s1)" by (cases "body s")
  show ?thesis using m by (cases r) (simp_all add: defer_catchPanic_nil_def)
qed

lemma no_panic_leaves_dequeueJob: "fst (dequeueJob rc s) \<noteq> Panicked p"
proof -
  obtain r s1 where m: "dequeueJob_body rc s = (r, s1)" by (cases "dequeueJob_body rc s")
  show ?thesis using m
    by (cases r) (simp_all add: dequeueJob_def Let_def split: prod.splits)
qed

lemma no_panic_leaves_doJobSafely: "fst (doJobSafely run n rc s) \<noteq> Panicked p"
proof -
  obtain r s1 where m: "doJobSafely_body run n rc s = (r, s1)"
    by (cases "doJobSafely_body run n rc s")
  show ?thesis using m by (cases r) (simp_all add: doJobSafely_def)
qed

lemma queueRoutine_not_Crashed: "queueRoutine_at (queueRoutine m s) \<noteq> Crashed"
proof (cases m)
  case (ShutdownMsg x)
  then show ?thesis by (simp add: queueRoutine_def)
next
  case (EnqueueMsg job)
  obtain r s1 where e: "queueRoutineEnqueue job s = (r, s1)" by (cases "queueRoutineEnqueue job s")
  have "r \<noteq> Panicked p" for p
    using no_panic_leaves_defer [of "''Queue''" "''jobPool.JobPool''" "''queueRoutineEnqueue''"
        "queueRoutineEnqueue_body job" s p] e
    by (simp add: queueRoutineEnqueue_def)
  then show ?thesis using EnqueueMsg e
    by (cases r) (auto simp: queueRoutine_def after_handler_def)
next
  case (DequeueMsg d)
  obtain r s1 where e: "queueRoutineDequeue d s = (r, s1)" by (cases "queueRoutineDequeue d s")
  have "r \<noteq> Panicked p" for p
    using no_panic_leaves_defer [of "''Queue''" "''jobPool.JobPool''" "''queueRoutineDequeue''"
        "queueRoutineDequeue_body d" s p] e
    by (simp add: queueRoutineDequeue_def)
  then show ?thesis using DequeueMsg e
    by (cases r) (auto simp: queueRoutine_def after_handler_def)
qed

text \<open>
  C10. When both queues are empty, the dequeue handler panics on removing the front of
  the empty normal queue, with nothing changed; the deferred \<^verbatim>\<open>catchPanic\<close> recovers it,
  so the handler returns and the queue routine goes back to its \<^verbatim>\<open>select\<close>; the pool
  (\<^verbatim>\<open>queuedJobs\<close>, both queues) is as before; no job is sent on any result channel; the
  requesting \<^verbatim>\<open>dequeueJob\<close> does not return, and the job routine is blocked in it in
  every later state.
\<close>

theorem dequeue_on_empty_queues:
  assumes "priorityJobQueue (this s) = []" and "normalJobQueue (this s) = []"
  shows "front_remove_normal s = (Panicked NilPointerDereference, s)
       \<and> queueRoutineDequeue_body d s = (Panicked NilPointerDereference, s)
       \<and> queueRoutineDequeue d s =
           (Ok (), emit (PanicLog ''Queue'' ''jobPool.JobPool'' ''queueRoutineDequeue''
                           NilPointerDereference) s)
       \<and> this (snd (queueRoutineDequeue d s)) = this s
       \<and> List.map_filter (sent_job c) (trace (snd (queueRoutineDequeue d s))) =
           List.map_filter (sent_job c) (trace s)
       \<and> (queueRoutine_at s = Selecting \<longrightarrow>
            queueRoutine_at (queueRoutine (DequeueMsg d) s) = Selecting)
       \<and> (queueRoutine_at s = Selecting \<and> \<not> closed (dequeueChannel (this s)) \<longrightarrow>
            fst (dequeueJob rc s) = Blocked)
       \<and> (queueRoutine_at s = Selecting \<and> \<not> closed (dequeueChannel (this s))
            \<and> routine i s = Some (Requesting rc) \<longrightarrow>
            step (Serve i) s \<noteq> None
            \<and> (\<forall>ls s'. exec (Serve i # ls) s = Some s' \<longrightarrow> routine i s' = Some Stuck))"
proof -
  have a: "front_remove_normal s = (Panicked NilPointerDereference, s)"
    using assms by (simp add: front_remove_normal_def list_Front_def list_Remove_def)
  note b = dequeue_body_empty [OF assms, of d]
  note c = dequeue_empty [OF assms, of d]
  have d: "List.map_filter (sent_job c) (trace (snd (queueRoutineDequeue d s))) =
           List.map_filter (sent_job c) (trace s)"
    by (simp add: c List.map_filter_def)
  have e: "queueRoutine_at (queueRoutine (DequeueMsg d) s) = Selecting"
    by (simp add: queueRoutine_def after_handler_def c)
  have f: "fst (dequeueJob rc s) = Blocked"
    if "queueRoutine_at s = Selecting" "\<not> closed (dequeueChannel (this s))"
    using dequeueJob_empty [OF that(2) that(1) assms] by simp
  have g: "step (Serve i) s \<noteq> None
      \<and> (\<forall>ls s'. exec (Serve i # ls) s = Some s' \<longrightarrow> routine i s' = Some Stuck)"
    if sel: "queueRoutine_at s = Selecting" and opn: "\<not> closed (dequeueChannel (this s))"
      and w: "routine i s = Some (Requesting rc)"
  proof -
    have st: "step (Serve i) s = Some (set_routine i Stuck
        (s\<lparr>trace := trace s @
                [DequeueRequest rc,
                 PanicLog ''Queue'' ''jobPool.JobPool'' ''queueRoutineDequeue''
                   NilPointerDereference]\<rparr>))"
      using w sel opn by (simp add: step_Serve_def dequeueJob_empty [OF opn sel assms])
    have i: "i < length (jobRoutine_at s)" using w by (simp add: routine_Some)
    have "routine i s' = Some Stuck" if "exec (Serve i # ls) s = Some s'" for ls s'
    proof -
      from that st have rest: "exec ls (set_routine i Stuck
        (s\<lparr>trace := trace s @
                [DequeueRequest rc,
                 PanicLog ''Queue'' ''jobPool.JobPool'' ''queueRoutineDequeue''
                   NilPointerDereference]\<rparr>)) = Some s'"
        by simp
      show ?thesis
        using exec_invariants(3) [OF rest, of i] i by (simp add: routine_def)
    qed
    then show ?thesis using st by simp
  qed
  show ?thesis using a b c d e f g by simp
qed

theorem dequeue_on_empty_queues_witness:
  "priorityJobQueue (this fresh_pool) = [] \<and> normalJobQueue (this fresh_pool) = []
   \<and> queueRoutine_at fresh_pool = Selecting
   \<and> \<not> closed (dequeueChannel (this fresh_pool))
   \<and> routine 0 (set_routine 0 (Requesting 200) fresh_pool) = Some (Requesting 200)
   \<and> queueRoutineDequeue_body \<lparr>ResultChannel_dq = 200\<rparr> fresh_pool =
       (Panicked NilPointerDereference, fresh_pool)
   \<and> fst (queueRoutineDequeue \<lparr>ResultChannel_dq = 200\<rparr> fresh_pool) = Ok ()
   \<and> this (snd (queueRoutineDequeue \<lparr>ResultChannel_dq = 200\<rparr> fresh_pool)) = this fresh_pool
   \<and> queueRoutine_at (queueRoutine (DequeueMsg \<lparr>ResultChannel_dq = 200\<rparr>) fresh_pool) = Selecting
   \<and> fst (dequeueJob 200 fresh_pool) = Blocked
   \<and> map_option (routine 0)
        (exec [Serve 0, ShutdownCalled ''main''] (set_routine 0 (Requesting 200) fresh_pool)) =
       Some (Some Stuck)"
proof -
  have e: "priorityJobQueue (this fresh_pool) = []" "normalJobQueue (this fresh_pool) = []"
    "queueRoutine_at fresh_pool = Selecting" "\<not> closed (dequeueChannel (this fresh_pool))"
    by (simp_all add: fresh_pool_def)
  have e': "priorityJobQueue (this (set_routine 0 (Requesting 200) fresh_pool)) = []"
    "normalJobQueue (this (set_routine 0 (Requesting 200) fresh_pool)) = []"
    "queueRoutine_at (set_routine 0 (Requesting 200) fresh_pool) = Selecting"
    "\<not> closed (dequeueChannel (this (set_routine 0 (Requesting 200) fresh_pool)))"
    "routine 0 (set_routine 0 (Requesting 200) fresh_pool) = Some (Requesting 200)"
    by (simp_all add: fresh_pool_def routine_def)
  have x: "exec [Serve 0, ShutdownCalled ''main'']
        (set_routine 0 (Requesting 200) fresh_pool) \<noteq> None"
    by (simp add: step_Serve_def step_ShutdownCalled_def Shutdown_until_Wait_def
        shutdown_handshake_def close_queue_channels_def close_shutdownJobChannel_def
        close_chan_def routine_def set_routine_def fresh_pool_def go_defs Let_def)
  then obtain s' where s': "exec [Serve 0, ShutdownCalled ''main'']
        (set_routine 0 (Requesting 200) fresh_pool) = Some s'"
    by blast
  have "routine 0 s' = Some Stuck"
    using dequeue_on_empty_queues [OF e'(1,2), of "\<lparr>ResultChannel_dq = 200\<rparr>" 0 200 0]
      e' s'
    by blast
  then have y: "map_option (routine 0)
        (exec [Serve 0, ShutdownCalled ''main''] (set_routine 0 (Requesting 200) fresh_pool)) =
       Some (Some Stuck)"
    using s' by simp
  show ?thesis
    using dequeue_on_empty_queues [OF e(1,2), of "\<lparr>ResultChannel_dq = 200\<rparr>" 0 200 0]
      e e'(5) y
    by simp
qed


text \<open>
  C8, as the code has it. A dequeue whose handling panics has not answered yet, and the
  panic is recovered by the handler's deferred \<^verbatim>\<open>catchPanic\<close>: the handler returns, having
  only logged the panic, and the queue routine goes back to its \<^verbatim>\<open>select\<close>; nothing is
  sent on the request's result channel, so the waiting \<^verbatim>\<open>dequeueJob\<close> receives no value
  at all and stays blocked. No panic leaves \<^verbatim>\<open>queueRoutineEnqueue\<close>,
  \<^verbatim>\<open>queueRoutineDequeue\<close>, \<^verbatim>\<open>dequeueJob\<close> or \<^verbatim>\<open>doJobSafely\<close>, and none ends the queue
  routine.
\<close>

theorem faulted_dequeue_is_recovered:
  "(fst (queueRoutineDequeue_body d s) = Panicked r \<longrightarrow>
      queueRoutineDequeue d s =
        (Ok (), emit (PanicLog ''Queue'' ''jobPool.JobPool'' ''queueRoutineDequeue'' r) s)
      \<and> List.map_filter (sent_job c) (trace (snd (queueRoutineDequeue d s))) =
          List.map_filter (sent_job c) (trace s)
      \<and> (queueRoutine_at s = Selecting \<longrightarrow>
           queueRoutine_at (queueRoutine (DequeueMsg d) s) = Selecting)
      \<and> (queueRoutine_at s = Selecting \<and> \<not> closed (dequeueChannel (this s)) \<longrightarrow>
           fst (dequeueJob (ResultChannel_dq d) s) = Blocked))
   \<and> fst (queueRoutineEnqueue job s) \<noteq> Panicked p
   \<and> fst (queueRoutineDequeue d s) \<noteq> Panicked p
   \<and> fst (dequeueJob rc s) \<noteq> Panicked p
   \<and> fst (doJobSafely run n rc s) \<noteq> Panicked p
   \<and> queueRoutine_at (queueRoutine m s) \<noteq> Crashed"
proof -
  have a: "queueRoutineDequeue d s =
        (Ok (), emit (PanicLog ''Queue'' ''jobPool.JobPool'' ''queueRoutineDequeue'' r) s)
      \<and> List.map_filter (sent_job c) (trace (snd (queueRoutineDequeue d s))) =
          List.map_filter (sent_job c) (trace s)
      \<and> (queueRoutine_at s = Selecting \<longrightarrow>
           queueRoutine_at (queueRoutine (DequeueMsg d) s) = Selecting)
      \<and> (queueRoutine_at s = Selecting \<and> \<not> closed (dequeueChannel (this s)) \<longrightarrow>
           fst (dequeueJob (ResultChannel_dq d) s) = Blocked)"
    if f: "fst (queueRoutineDequeue_body d s) = Panicked r"
  proof -
    note e = dequeue_body_panics_only_when_empty [OF f]
    have r: "r = NilPointerDereference" by (rule dequeue_body_panic(2) [OF f])
    have q: "queueRoutineDequeue d s =
        (Ok (), emit (PanicLog ''Queue'' ''jobPool.JobPool'' ''queueRoutineDequeue'' r) s)"
      using e r by (simp add: dequeue_empty)
    have b: "fst (dequeueJob (ResultChannel_dq d) s) = Blocked"
      if "queueRoutine_at s = Selecting" "\<not> closed (dequeueChannel (this s))"
      using dequeueJob_empty [OF that(2) that(1)] e by simp
    show ?thesis using q b
      by (simp add: List.map_filter_def queueRoutine_def after_handler_def)
  qed
  have b: "fst (queueRoutineEnqueue job s) \<noteq> Panicked p"
    unfolding queueRoutineEnqueue_def by (rule no_panic_leaves_defer)
  have c: "fst (queueRoutineDequeue d s) \<noteq> Panicked p"
    unfolding queueRoutineDequeue_def by (rule no_panic_leaves_defer)
  show ?thesis
    using a b c no_panic_leaves_dequeueJob [of rc s p]
      no_panic_leaves_doJobSafely [of run n rc s p] queueRoutine_not_Crashed [of m s]
    by blast
qed

theorem faulted_dequeue_is_recovered_witness:
  "fst (queueRoutineDequeue_body \<lparr>ResultChannel_dq = 200\<rparr> fresh_pool) =
     Panicked NilPointerDereference
   \<and> queueRoutine_at fresh_pool = Selecting
   \<and> \<not> closed (dequeueChannel (this fresh_pool))
   \<and> queueRoutineDequeue \<lparr>ResultChannel_dq = 200\<rparr> fresh_pool =
       (Ok (), emit (PanicLog ''Queue'' ''jobPool.JobPool'' ''queueRoutineDequeue''
                       NilPointerDereference) fresh_pool)
   \<and> queueRoutine_at (queueRoutine (DequeueMsg \<lparr>ResultChannel_dq = 200\<rparr>) fresh_pool) = Selecting
   \<and> fst (dequeueJob 200 fresh_pool) = Blocked"
proof -
  have e: "fst (queueRoutineDequeue_body \<lparr>ResultChannel_dq = 200\<rparr> fresh_pool) =
     Panicked NilPointerDereference"
    "queueRoutine_at fresh_pool = Selecting" "\<not> closed (dequeueChannel (this fresh_pool))"
    by (simp_all add: fresh_pool_def go_defs)
  show ?thesis
    using faulted_dequeue_is_recovered
      [of "\<lparr>ResultChannel_dq = 200\<rparr>" fresh_pool NilPointerDereference 0] e
    by simp
qed

text \<open>
  C8 as stated fails: on the pool \<^verbatim>\<open>New(1, 10)\<close> returns, whose queues are empty, the
  handling of a dequeue request panics before it answers, and the \<^verbatim>\<open>dequeueJob\<close> that
  waits does not return with an empty job: it does not return.
\<close>

theorem faulted_dequeue_gives_no_value:
  "fst (queueRoutineDequeue_body \<lparr>ResultChannel_dq = 200\<rparr> fresh_pool) =
     Panicked NilPointerDereference
   \<and> fst (dequeueJob 200 fresh_pool) = Blocked
   \<and> fst (dequeueJob 200 fresh_pool) \<noteq> Ok (None, None)"
  by (simp add: fresh_pool_def go_defs Let_def)

text \<open>
  C4. In every state the pool reaches, for a request the queue routine takes while
  \<^verbatim>\<open>queuedJobs\<close> is below \<^verbatim>\<open>queueCapacity\<close>: the handler appends the job to the priority
  queue if its flag is set and to the normal queue otherwise, adds one to \<^verbatim>\<open>queuedJobs\<close>,
  answers the caller with \<^verbatim>\<open>nil\<close>, then sends one wake-up on \<^verbatim>\<open>jobChannel\<close>, in that
  order, and returns.
\<close>

theorem enqueue_below_capacity_in_order:
  assumes "New n c = Inr s0" and "exec ls s0 = Some s"
    and "queueRoutine_at s = Selecting"
    and "sint (QueuedJobs s) < sint (queueCapacity (this s))"
  shows "queueRoutineEnqueue job s =
           (Ok (),
            s\<lparr>this := (this s)\<lparr>
                 priorityJobQueue :=
                   (if Priority job then priorityJobQueue (this s) @ [job]
                    else priorityJobQueue (this s)),
                 normalJobQueue :=
                   (if Priority job then normalJobQueue (this s)
                    else normalJobQueue (this s) @ [job]),
                 queuedJobs := queuedJobs (this s) + 1,
                 jobChannel := (jobChannel (this s))\<lparr>buf := buf (jobChannel (this s)) @ [''Wake Up'']\<rparr>\<rparr>,
               trace := trace s @
                 [if Priority job then PushBackPriority job else PushBackNormal job,
                  AddQueuedJobs 1,
                  SendError (ResultChannel job) None,
                  SendWake ''Wake Up'']\<rparr>)
       \<and> sint (QueuedJobs (snd (queueRoutineEnqueue job s))) = sint (QueuedJobs s) + 1"
proof -
  have inv: "pool_inv s" using New_inv(1) [OF assms(1)] assms(2) by (rule pool_inv_exec)
  have ne: "queuedJobs (this s) \<noteq> queueCapacity (this s)"
    using assms(4) by (auto simp: QueuedJobs_def)
  note room = pool_inv_room [OF inv assms(3) ne]
  have s1: "sint (queuedJobs (this s) + 1) = sint (queuedJobs (this s)) + 1"
    using inv ne by (intro sint_succ_below) (auto simp: pool_inv_def queue_inv_def)
  show ?thesis
    by (simp add: enqueue_below_capacity [OF ne room] QueuedJobs_def s1)
qed

theorem enqueue_below_capacity_in_order_witness:
  "New 2 1 = Inr small_pool
   \<and> exec [] small_pool = Some small_pool
   \<and> queueRoutine_at small_pool = Selecting
   \<and> sint (QueuedJobs small_pool) < sint (queueCapacity (this small_pool))
   \<and> fst (queueRoutineEnqueue \<lparr>Jobber = ''A'', Priority = False, ResultChannel = 100\<rparr> small_pool) = Ok ()
   \<and> trace (snd (queueRoutineEnqueue \<lparr>Jobber = ''A'', Priority = False, ResultChannel = 100\<rparr> small_pool)) =
       [PushBackNormal \<lparr>Jobber = ''A'', Priority = False, ResultChannel = 100\<rparr>,
        AddQueuedJobs 1, SendError 100 None, SendWake ''Wake Up'']
   \<and> sint (QueuedJobs (snd (queueRoutineEnqueue \<lparr>Jobber = ''A'', Priority = False, ResultChannel = 100\<rparr> small_pool))) = 1"
proof -
  have h: "exec [] small_pool = Some small_pool" "queueRoutine_at small_pool = Selecting"
    "sint (QueuedJobs small_pool) < sint (queueCapacity (this small_pool))"
    by (simp_all add: small_pool_def QueuedJobs_def)
  have q: "sint (QueuedJobs small_pool) = 0" "trace small_pool = []"
    by (simp_all add: small_pool_def QueuedJobs_def)
  note t = enqueue_below_capacity_in_order [OF New_small h,
        of "\<lparr>Jobber = ''A'', Priority = False, ResultChannel = 100\<rparr>"]
  have a: "fst (queueRoutineEnqueue \<lparr>Jobber = ''A'', Priority = False, ResultChannel = 100\<rparr> small_pool) = Ok ()"
    using conjunct1 [OF t] by simp
  have b: "trace (snd (queueRoutineEnqueue \<lparr>Jobber = ''A'', Priority = False, ResultChannel = 100\<rparr> small_pool)) =
       [PushBackNormal \<lparr>Jobber = ''A'', Priority = False, ResultChannel = 100\<rparr>,
        AddQueuedJobs 1, SendError 100 None, SendWake ''Wake Up'']"
    using conjunct1 [OF t] q(2) by simp
  have c: "sint (QueuedJobs (snd (queueRoutineEnqueue \<lparr>Jobber = ''A'', Priority = False, ResultChannel = 100\<rparr> small_pool))) = 1"
    using conjunct2 [OF t] q(1) by simp
  show ?thesis
    using New_small h a b c by simp
qed

text \<open>
  C6. \<^verbatim>\<open>New\<close> makes \<^verbatim>\<open>jobChannel\<close> with a buffer of \<^verbatim>\<open>queueCapacity\<close> values. In every
  state the pool reaches, the wake-ups in the buffer are at most \<^verbatim>\<open>queuedJobs\<close>, which
  is at most the capacity; the queue routine is never blocked in its send on
  \<^verbatim>\<open>jobChannel\<close>; and whatever request it takes, the enqueue handler returns.
\<close>

theorem wake_send_never_blocks:
  assumes "New n c = Inr s0" and "exec ls s0 = Some s"
  shows "cap (jobChannel (this s0)) = nat (sint c)
       \<and> cap (jobChannel (this s)) = nat (sint c)
       \<and> int (length (buf (jobChannel (this s)))) \<le> sint (QueuedJobs s)
       \<and> sint (QueuedJobs s) \<le> sint c
       \<and> queueRoutine_at s \<noteq> SendingWake
       \<and> step WakeSent s = None
       \<and> (queueRoutine_at s = Selecting \<longrightarrow> fst (queueRoutineEnqueue job s) = Ok ())"
proof -
  have inv0: "pool_inv s0" by (rule New_inv(1) [OF assms(1)])
  have inv: "pool_inv s" using inv0 assms(2) by (rule pool_inv_exec)
  have c0: "queueCapacity (this s0) = c" by (rule New_inv(3) [OF assms(1)])
  have c: "queueCapacity (this s) = c" using exec_invariants(1) [OF assms(2)] c0 by simp
  have w: "queueRoutine_at s \<noteq> SendingWake" using inv by (auto simp: pool_inv_def)
  show ?thesis
    using inv inv0 c c0 w pool_inv_enqueue(2) [OF inv, of job]
    by (auto simp: pool_inv_def queue_inv_def QueuedJobs_def step_WakeSent_def)
qed

theorem wake_send_never_blocks_witness:
  "New 2 1 = Inr small_pool
   \<and> exec [Submit ''main'' ''A'' False 100] small_pool = Some (submitted ''A'' False 100 small_pool)
   \<and> queueRoutine_at (submitted ''A'' False 100 small_pool) = Selecting
   \<and> cap (jobChannel (this (submitted ''A'' False 100 small_pool))) = nat (sint (1 :: int32))
   \<and> int (length (buf (jobChannel (this (submitted ''A'' False 100 small_pool)))))
       \<le> sint (QueuedJobs (submitted ''A'' False 100 small_pool))
   \<and> fst (queueRoutineEnqueue \<lparr>Jobber = ''B'', Priority = False, ResultChannel = 101\<rparr>
            (submitted ''A'' False 100 small_pool)) = Ok ()"
proof -
  have x: "exec [Submit ''main'' ''A'' False 100] small_pool = Some (submitted ''A'' False 100 small_pool)"
    by (simp add: step_Submit_def submitted_def small_pool_def go_defs Let_def)
  have y: "queueRoutine_at (submitted ''A'' False 100 small_pool) = Selecting"
    unfolding small_A by (simp add: small_pool_def)
  show ?thesis
    using wake_send_never_blocks [OF New_small x,
        of "\<lparr>Jobber = ''B'', Priority = False, ResultChannel = 101\<rparr>"] New_small x y
    by simp
qed

lemma dequeueJob_next:
  assumes "\<not> closed (dequeueChannel (this s))" and "queueRoutine_at s = Selecting"
    and "next_job (this s) = Some j"
  shows "fst (dequeueJob rc s) = Ok (Some j, None)"
    and "trace (snd (dequeueJob rc s)) =
           trace s @ [DequeueRequest rc, removal (this s), AddQueuedJobs (- 1), SendJob rc j]"
    and "activeRoutines (this (snd (dequeueJob rc s))) = activeRoutines (this s)"
    and "queueRoutine_at (snd (dequeueJob rc s)) = Selecting"
proof -
  have "fst (dequeueJob rc s) = Ok (Some j, None)
    \<and> trace (snd (dequeueJob rc s)) =
           trace s @ [DequeueRequest rc, removal (this s), AddQueuedJobs (- 1), SendJob rc j]
    \<and> activeRoutines (this (snd (dequeueJob rc s))) = activeRoutines (this s)
    \<and> queueRoutine_at (snd (dequeueJob rc s)) = Selecting"
  proof (cases "priorityJobQueue (this s)")
    case (Cons x xs)
    then have "x = j" using assms(3) by (simp add: next_job_def)
    then show ?thesis using assms(2) Cons
      by (simp add: dequeueJob_priority [OF assms(1,2) Cons] removal_def)
  next
    case Nil
    then obtain xs where Cons: "normalJobQueue (this s) = j # xs"
      using assms(3) by (auto simp: next_job_def split: list.splits)
    show ?thesis using assms(2) Nil
      by (simp add: dequeueJob_normal [OF assms(1,2) Nil Cons] removal_def)
  qed
  then show "fst (dequeueJob rc s) = Ok (Some j, None)"
    and "trace (snd (dequeueJob rc s)) =
           trace s @ [DequeueRequest rc, removal (this s), AddQueuedJobs (- 1), SendJob rc j]"
    and "activeRoutines (this (snd (dequeueJob rc s))) = activeRoutines (this s)"
    and "queueRoutine_at (snd (dequeueJob rc s)) = Selecting"
    by simp_all
qed

lemma doJobSafely_runs:
  assumes "\<not> closed (dequeueChannel (this s))" and "queueRoutine_at s = Selecting"
    and "next_job (this s) = Some j" and "run (Jobber j) n \<noteq> Blocked"
  shows "fst (doJobSafely run n rc s) = Ok ()"
    and "trace (snd (doJobSafely run n rc s)) =
           trace s @
             [AddActiveRoutines 1, DequeueRequest rc, removal (this s), AddQueuedJobs (- 1),
              SendJob rc j, RunJob (Jobber j) n, AddActiveRoutines (- 1)] @
             (case run (Jobber j) n of
                Panicked p \<Rightarrow> [PanicLog ''jobRoutine'' ''jobPool.JobPool'' ''doJobSafely'' p]
              | _ \<Rightarrow> [])"
    and "activeRoutines (this (snd (doJobSafely run n rc s))) = activeRoutines (this s)"
    and "queueRoutine_at (snd (doJobSafely run n rc s)) = Selecting"
proof -
  define s1 where "s1 = snd (add_activeRoutines 1 s)"
  have s1: "add_activeRoutines 1 s = (Ok (), s1)"
    by (simp add: s1_def add_activeRoutines_def)
  have h: "\<not> closed (dequeueChannel (this s1))" "queueRoutine_at s1 = Selecting"
    "next_job (this s1) = Some j"
    using assms(1-3) by (auto simp: s1_def next_job_def split: list.splits)
  note d = dequeueJob_next [OF h, of rc]
  obtain s2 where s2: "dequeueJob rc s1 = (Ok (Some j, None), s2)"
    using d(1) by (cases "dequeueJob rc s1") simp
  have t2: "trace s2 = trace s @ [AddActiveRoutines 1, DequeueRequest rc, removal (this s),
      AddQueuedJobs (- 1), SendJob rc j]"
    and a2: "activeRoutines (this s2) = activeRoutines (this s) + 1"
    and q2: "queueRoutine_at s2 = Selecting"
    using d(2,3,4) s2 by (simp_all add: s1_def removal_def)
  have body: "doJobSafely_body run n rc s = (run (Jobber j) n, emit (RunJob (Jobber j) n) s2)"
    by (simp add: doJobSafely_body_def bind_go_def s1 s2 after_dequeueJob_def call_RunJob_def)
  have "fst (doJobSafely run n rc s) = Ok ()
    \<and> trace (snd (doJobSafely run n rc s)) =
           trace s @
             [AddActiveRoutines 1, DequeueRequest rc, removal (this s), AddQueuedJobs (- 1),
              SendJob rc j, RunJob (Jobber j) n, AddActiveRoutines (- 1)] @
             (case run (Jobber j) n of
                Panicked p \<Rightarrow> [PanicLog ''jobRoutine'' ''jobPool.JobPool'' ''doJobSafely'' p]
              | _ \<Rightarrow> [])
    \<and> activeRoutines (this (snd (doJobSafely run n rc s))) = activeRoutines (this s)
    \<and> queueRoutine_at (snd (doJobSafely run n rc s)) = Selecting"
    using assms(4) t2 a2 q2
    by (cases "run (Jobber j) n") (simp_all add: doJobSafely_def body)
  then show "fst (doJobSafely run n rc s) = Ok ()"
    and "trace (snd (doJobSafely run n rc s)) =
           trace s @
             [AddActiveRoutines 1, DequeueRequest rc, removal (this s), AddQueuedJobs (- 1),
              SendJob rc j, RunJob (Jobber j) n, AddActiveRoutines (- 1)] @
             (case run (Jobber j) n of
                Panicked p \<Rightarrow> [PanicLog ''jobRoutine'' ''jobPool.JobPool'' ''doJobSafely'' p]
              | _ \<Rightarrow> [])"
    and "activeRoutines (this (snd (doJobSafely run n rc s))) = activeRoutines (this s)"
    and "queueRoutine_at (snd (doJobSafely run n rc s)) = Selecting"
    by simp_all
qed

lemma fresh_J1:
  "submitted ''J1'' False 100 fresh_pool =
     fresh_pool\<lparr>this := (this fresh_pool)\<lparr>
         normalJobQueue := [\<lparr>Jobber = ''J1'', Priority = False, ResultChannel = 100\<rparr>],
         queuedJobs := 1, jobChannel := \<lparr>buf = [''Wake Up''], cap = 10, closed = False\<rparr>\<rparr>,
       trace := [PushBackNormal \<lparr>Jobber = ''J1'', Priority = False, ResultChannel = 100\<rparr>,
                 AddQueuedJobs 1, SendError 100 None, SendWake ''Wake Up'']\<rparr>"
  by (simp add: submitted_def fresh_pool_def go_defs Let_def)

text \<open>
  C5, as the code has it. In \<^verbatim>\<open>doJobSafely\<close> a job routine first adds one to
  \<^verbatim>\<open>activeRoutines\<close>, then sends its dequeue request, then, with the job the queue routine
  hands it, calls \<^verbatim>\<open>RunJob\<close> and waits for it, then takes one from \<^verbatim>\<open>activeRoutines\<close>
  again. In every state the pool reaches, \<^verbatim>\<open>activeRoutines\<close> is the number of job routines
  between their wake-up and the end of \<^verbatim>\<open>doJobSafely\<close>: those that wait for their job
  and those that run one.
\<close>

theorem doJobSafely_increments_first:
  "(\<not> closed (dequeueChannel (this s)) \<and> queueRoutine_at s = Selecting
      \<and> next_job (this s) = Some j \<and> run (Jobber j) n \<noteq> Blocked \<longrightarrow>
      fst (doJobSafely run n rc s) = Ok ()
      \<and> trace (snd (doJobSafely run n rc s)) =
           trace s @
             [AddActiveRoutines 1, DequeueRequest rc, removal (this s), AddQueuedJobs (- 1),
              SendJob rc j, RunJob (Jobber j) n, AddActiveRoutines (- 1)] @
             (case run (Jobber j) n of
                Panicked p \<Rightarrow> [PanicLog ''jobRoutine'' ''jobPool.JobPool'' ''doJobSafely'' p]
              | _ \<Rightarrow> []))
   \<and> (New m c = Inr s0 \<and> exec ls s0 = Some s1 \<longrightarrow>
        ActiveRoutines s1 = word_of_nat (length (filter in_doJobSafely (jobRoutine_at s1))))"
proof -
  have "ActiveRoutines s1 = word_of_nat (length (filter in_doJobSafely (jobRoutine_at s1)))"
    if n: "New m c = Inr s0" and e: "exec ls s0 = Some s1"
  proof -
    have "jobRoutine_at s0 = replicate (nat m) Waiting" "activeRoutines (this s0) = 0"
      using n by (auto simp: New_def make_chan_def split: if_splits)
    then have "active_inv s0" by (simp add: active_inv_def)
    then have "active_inv s1" using exec_invariants(2) [OF e] by simp
    then show ?thesis by (simp add: active_inv_def ActiveRoutines_def)
  qed
  then show ?thesis using doJobSafely_runs(1,2) [of s j run n rc] by blast
qed

theorem doJobSafely_increments_first_witness:
  "\<not> closed (dequeueChannel (this (submitted ''J1'' False 100 fresh_pool)))
   \<and> queueRoutine_at (submitted ''J1'' False 100 fresh_pool) = Selecting
   \<and> next_job (this (submitted ''J1'' False 100 fresh_pool)) =
       Some \<lparr>Jobber = ''J1'', Priority = False, ResultChannel = 100\<rparr>
   \<and> returns ''J1'' 0 \<noteq> Blocked
   \<and> drop 4 (trace (snd (doJobSafely returns 0 200 (submitted ''J1'' False 100 fresh_pool)))) =
       [AddActiveRoutines 1, DequeueRequest 200, RemoveNormal, AddQueuedJobs (- 1),
        SendJob 200 \<lparr>Jobber = ''J1'', Priority = False, ResultChannel = 100\<rparr>,
        RunJob ''J1'' 0, AddActiveRoutines (- 1)]
   \<and> New 1 10 = Inr fresh_pool
   \<and> exec [Submit ''main'' ''J1'' False 100, TakeWake 0 200] fresh_pool = Some woken
   \<and> ActiveRoutines woken = word_of_nat (length (filter in_doJobSafely (jobRoutine_at woken)))
   \<and> jobRoutine_at woken = [Requesting 200]"
proof -
  have h: "\<not> closed (dequeueChannel (this (submitted ''J1'' False 100 fresh_pool)))"
    "queueRoutine_at (submitted ''J1'' False 100 fresh_pool) = Selecting"
    "next_job (this (submitted ''J1'' False 100 fresh_pool)) =
       Some \<lparr>Jobber = ''J1'', Priority = False, ResultChannel = 100\<rparr>"
    "removal (this (submitted ''J1'' False 100 fresh_pool)) = RemoveNormal"
    "length (trace (submitted ''J1'' False 100 fresh_pool)) = 4"
    unfolding fresh_J1 by (simp_all add: fresh_pool_def next_job_def removal_def)
  have r: "returns ''J1'' 0 \<noteq> Blocked" by (simp add: returns_def)
  have x: "exec [Submit ''main'' ''J1'' False 100, TakeWake 0 200] fresh_pool = Some woken"
    by (simp add: step_Submit_def step_TakeWake_def woken_def submitted_def routine_def
        set_routine_def fresh_pool_def go_defs Let_def)
  have w: "jobRoutine_at woken = [Requesting 200]"
    unfolding woken_def fresh_J1 by (simp add: fresh_pool_def go_defs Let_def)
  note t = doJobSafely_increments_first [of "submitted ''J1'' False 100 fresh_pool"
      "\<lparr>Jobber = ''J1'', Priority = False, ResultChannel = 100\<rparr>" returns 0 200
      1 10 fresh_pool "[Submit ''main'' ''J1'' False 100, TakeWake 0 200]" woken]
  have a: "drop 4 (trace (snd (doJobSafely returns 0 200 (submitted ''J1'' False 100 fresh_pool)))) =
       [AddActiveRoutines 1, DequeueRequest 200, RemoveNormal, AddQueuedJobs (- 1),
        SendJob 200 \<lparr>Jobber = ''J1'', Priority = False, ResultChannel = 100\<rparr>,
        RunJob ''J1'' 0, AddActiveRoutines (- 1)]"
    using conjunct1 [OF t] h r by (simp add: returns_def)
  have b: "ActiveRoutines woken = word_of_nat (length (filter in_doJobSafely (jobRoutine_at woken)))"
    using conjunct2 [OF t] New_fresh x by simp
  show ?thesis using h r a b New_fresh x w by simp
qed

text \<open>
  C5 as stated fails. With \<^verbatim>\<open>J1\<close> queued on the pool of \<^verbatim>\<open>New(1, 10)\<close>, \<^verbatim>\<open>doJobSafely\<close>
  does not send its dequeue request before it increments \<^verbatim>\<open>activeRoutines\<close>: the
  increment comes first. And once the job routine has taken its wake-up,
  \<^verbatim>\<open>activeRoutines\<close> is 1 while no job routine runs a job.
\<close>

theorem dequeue_request_follows_increment:
  "\<not> comes_before (DequeueRequest 200) (AddActiveRoutines 1)
       (trace (snd (doJobSafely returns 0 200 (submitted ''J1'' False 100 fresh_pool))))
   \<and> comes_before (AddActiveRoutines 1) (DequeueRequest 200)
       (trace (snd (doJobSafely returns 0 200 (submitted ''J1'' False 100 fresh_pool))))
   \<and> exec [Submit ''main'' ''J1'' False 100, TakeWake 0 200] fresh_pool = Some woken
   \<and> sint (ActiveRoutines woken) = 1
   \<and> filter in_RunJob (jobRoutine_at woken) = []"
proof -
  have t: "trace (snd (doJobSafely returns 0 200 (submitted ''J1'' False 100 fresh_pool))) =
       [PushBackNormal \<lparr>Jobber = ''J1'', Priority = False, ResultChannel = 100\<rparr>,
        AddQueuedJobs 1, SendError 100 None, SendWake ''Wake Up'',
        AddActiveRoutines 1, DequeueRequest 200, RemoveNormal, AddQueuedJobs (- 1),
        SendJob 200 \<lparr>Jobber = ''J1'', Priority = False, ResultChannel = 100\<rparr>,
        RunJob ''J1'' 0, AddActiveRoutines (- 1)]"
    unfolding fresh_J1 by (simp add: fresh_pool_def returns_def go_defs Let_def)
  have x: "exec [Submit ''main'' ''J1'' False 100, TakeWake 0 200] fresh_pool = Some woken"
    by (simp add: step_Submit_def step_TakeWake_def woken_def submitted_def routine_def
        set_routine_def fresh_pool_def go_defs Let_def)
  have w: "sint (ActiveRoutines woken) = 1" "filter in_RunJob (jobRoutine_at woken) = []"
    unfolding woken_def fresh_J1 by (simp_all add: fresh_pool_def go_defs Let_def)
  show ?thesis using x w by (simp add: t comes_before_def)
qed

text \<open>
  C9. A panic of \<^verbatim>\<open>RunJob\<close> is caught inside \<^verbatim>\<open>doJobSafely\<close>: the deferred decrement
  runs, \<^verbatim>\<open>catchPanic\<close> recovers and logs the panic, and \<^verbatim>\<open>doJobSafely\<close> returns, with
  \<^verbatim>\<open>activeRoutines\<close> back at what it was before; no panic ever leaves \<^verbatim>\<open>doJobSafely\<close>.
  In the pool, the job routine whose job panics is back in its \<^verbatim>\<open>select\<close>, the queue
  routine and the other job routines are where they were, and the job routine takes the
  next wake-up there is.
\<close>

theorem panicking_job_is_contained:
  "(\<not> closed (dequeueChannel (this s)) \<and> queueRoutine_at s = Selecting
      \<and> next_job (this s) = Some j \<and> run (Jobber j) n = Panicked p \<longrightarrow>
      fst (doJobSafely run n rc s) = Ok ()
      \<and> ActiveRoutines (snd (doJobSafely run n rc s)) = ActiveRoutines s
      \<and> queueRoutine_at (snd (doJobSafely run n rc s)) = Selecting
      \<and> trace (snd (doJobSafely run n rc s)) =
           trace s @
             [AddActiveRoutines 1, DequeueRequest rc, removal (this s), AddQueuedJobs (- 1),
              SendJob rc j, RunJob (Jobber j) n, AddActiveRoutines (- 1),
              PanicLog ''jobRoutine'' ''jobPool.JobPool'' ''doJobSafely'' p])
   \<and> fst (doJobSafely run n rc s) \<noteq> Panicked p'
   \<and> (routine i s = Some (Running j) \<longrightarrow>
        step (JobEnds i (Panicked p)) s =
          Some (set_routine i Waiting (doJobSafely_deferred (Panicked p) s))
        \<and> routine i (set_routine i Waiting (doJobSafely_deferred (Panicked p) s)) = Some Waiting
        \<and> ActiveRoutines (set_routine i Waiting (doJobSafely_deferred (Panicked p) s)) =
            ActiveRoutines s - 1
        \<and> queueRoutine_at (set_routine i Waiting (doJobSafely_deferred (Panicked p) s)) =
            queueRoutine_at s
        \<and> (\<forall>k. k \<noteq> i \<longrightarrow>
              routine k (set_routine i Waiting (doJobSafely_deferred (Panicked p) s)) =
              routine k s)
        \<and> (buf (jobChannel (this s)) \<noteq> [] \<longrightarrow>
              step (TakeWake i rc) (set_routine i Waiting (doJobSafely_deferred (Panicked p) s))
                \<noteq> None))"
proof -
  have a: "fst (doJobSafely run n rc s) = Ok ()
      \<and> ActiveRoutines (snd (doJobSafely run n rc s)) = ActiveRoutines s
      \<and> queueRoutine_at (snd (doJobSafely run n rc s)) = Selecting
      \<and> trace (snd (doJobSafely run n rc s)) =
           trace s @
             [AddActiveRoutines 1, DequeueRequest rc, removal (this s), AddQueuedJobs (- 1),
              SendJob rc j, RunJob (Jobber j) n, AddActiveRoutines (- 1),
              PanicLog ''jobRoutine'' ''jobPool.JobPool'' ''doJobSafely'' p]"
    if h: "\<not> closed (dequeueChannel (this s))" "queueRoutine_at s = Selecting"
      "next_job (this s) = Some j" and r: "run (Jobber j) n = Panicked p"
  proof -
    have nb: "run (Jobber j) n \<noteq> Blocked" using r by simp
    show ?thesis
      using doJobSafely_runs [where s = s and j = j and run = run and n = n and rc = rc] h nb r
      by (simp add: ActiveRoutines_def)
  qed
  have b: "step (JobEnds i (Panicked p)) s =
          Some (set_routine i Waiting (doJobSafely_deferred (Panicked p) s))
        \<and> routine i (set_routine i Waiting (doJobSafely_deferred (Panicked p) s)) = Some Waiting
        \<and> ActiveRoutines (set_routine i Waiting (doJobSafely_deferred (Panicked p) s)) =
            ActiveRoutines s - 1
        \<and> queueRoutine_at (set_routine i Waiting (doJobSafely_deferred (Panicked p) s)) =
            queueRoutine_at s
        \<and> (\<forall>k. k \<noteq> i \<longrightarrow>
              routine k (set_routine i Waiting (doJobSafely_deferred (Panicked p) s)) =
              routine k s)
        \<and> (buf (jobChannel (this s)) \<noteq> [] \<longrightarrow>
              step (TakeWake i rc) (set_routine i Waiting (doJobSafely_deferred (Panicked p) s))
                \<noteq> None)"
    if w: "routine i s = Some (Running j)"
  proof -
    have i: "i < length (jobRoutine_at s)" using w by (simp add: routine_Some)
    have t: "step (TakeWake i rc) (set_routine i Waiting (doJobSafely_deferred (Panicked p) s))
                \<noteq> None"
      if "buf (jobChannel (this s)) \<noteq> []"
      using that i
      by (cases "buf (jobChannel (this s))")
         (simp_all add: step_TakeWake_def routine_def recv_jobChannel_def Let_def)
    show ?thesis
      using w i t
      by (simp add: step_JobEnds_def routine_def ActiveRoutines_def)
  qed
  show ?thesis
    using a b no_panic_leaves_doJobSafely [of run n rc s p'] by blast
qed

theorem panicking_job_is_contained_witness:
  "\<not> closed (dequeueChannel (this (submitted ''J1'' False 100 fresh_pool)))
   \<and> queueRoutine_at (submitted ''J1'' False 100 fresh_pool) = Selecting
   \<and> next_job (this (submitted ''J1'' False 100 fresh_pool)) =
       Some \<lparr>Jobber = ''J1'', Priority = False, ResultChannel = 100\<rparr>
   \<and> panics ''J1'' 0 = Panicked (JobPanic ''boom'')
   \<and> fst (doJobSafely panics 0 200 (submitted ''J1'' False 100 fresh_pool)) = Ok ()
   \<and> ActiveRoutines (snd (doJobSafely panics 0 200 (submitted ''J1'' False 100 fresh_pool))) = 0
   \<and> routine 0 (set_routine 0 (Running \<lparr>Jobber = ''J1'', Priority = False, ResultChannel = 100\<rparr>)
        (submitted ''J2'' False 101 woken)) =
       Some (Running \<lparr>Jobber = ''J1'', Priority = False, ResultChannel = 100\<rparr>)
   \<and> buf (jobChannel (this (set_routine 0
        (Running \<lparr>Jobber = ''J1'', Priority = False, ResultChannel = 100\<rparr>)
        (submitted ''J2'' False 101 woken)))) \<noteq> []
   \<and> (1 :: nat) \<noteq> 0
   \<and> exec [JobEnds 0 (Panicked (JobPanic ''boom'')), TakeWake 0 201]
        (set_routine 0 (Running \<lparr>Jobber = ''J1'', Priority = False, ResultChannel = 100\<rparr>)
          (submitted ''J2'' False 101 woken)) \<noteq> None
   \<and> routine 1 (set_routine 0 Waiting (doJobSafely_deferred (Panicked (JobPanic ''boom''))
        (set_routine 0 (Running \<lparr>Jobber = ''J1'', Priority = False, ResultChannel = 100\<rparr>)
          (submitted ''J2'' False 101 woken)))) = None"
proof -
  define s where "s = submitted ''J1'' False 100 fresh_pool"
  define j where "j = \<lparr>Jobber = ''J1'', Priority = False, ResultChannel = (100 :: nat)\<rparr>"
  define u where "u = set_routine 0 (Running j) (submitted ''J2'' False 101 woken)"
  have h: "\<not> closed (dequeueChannel (this s))" "queueRoutine_at s = Selecting"
    "next_job (this s) = Some j" "ActiveRoutines s = 0"
    unfolding s_def j_def fresh_J1 by (simp_all add: fresh_pool_def next_job_def ActiveRoutines_def)
  have r: "panics (Jobber j) 0 = Panicked (JobPanic ''boom'')" by (simp add: panics_def)
  have wk: "woken = fresh_pool\<lparr>this := (this fresh_pool)\<lparr>
         normalJobQueue := [\<lparr>Jobber = ''J1'', Priority = False, ResultChannel = 100\<rparr>],
         queuedJobs := 1, activeRoutines := 1\<rparr>,
       jobRoutine_at := [Requesting 200],
       trace := [PushBackNormal \<lparr>Jobber = ''J1'', Priority = False, ResultChannel = 100\<rparr>,
                 AddQueuedJobs 1, SendError 100 None, SendWake ''Wake Up'',
                 AddActiveRoutines 1]\<rparr>"
    unfolding woken_def fresh_J1
    by (simp add: fresh_pool_def set_routine_def recv_jobChannel_def add_activeRoutines_def
        emit_def Let_def)
  have u: "routine 0 u = Some (Running j)" "buf (jobChannel (this u)) \<noteq> []"
    "length (jobRoutine_at u) = 1"
    unfolding u_def submitted_def wk
    by (simp_all add: fresh_pool_def routine_def set_routine_def go_defs Let_def)
  note t = panicking_job_is_contained [where s = s and j = j and run = panics and n = 0
      and p = "JobPanic ''boom''" and rc = 200]
  note t' = panicking_job_is_contained [where s = u and j = j and p = "JobPanic ''boom''"
      and rc = 201 and i = 0]
  have a: "fst (doJobSafely panics 0 200 s) = Ok ()"
    "ActiveRoutines (snd (doJobSafely panics 0 200 s)) = 0"
    using conjunct1 [OF t] h r by simp_all
  have b: "exec [JobEnds 0 (Panicked (JobPanic ''boom'')), TakeWake 0 201] u \<noteq> None"
    using conjunct2 [OF conjunct2 [OF t']] u by auto
  have c: "routine 1 (set_routine 0 Waiting (doJobSafely_deferred (Panicked (JobPanic ''boom'')) u))
      = None"
    using conjunct2 [OF conjunct2 [OF t']] u by (simp add: routine_def)
  show ?thesis
    using h(1-3) r a b c u(1,2) unfolding s_def j_def u_def by simp
qed

lemma New_one:
  assumes "New 1 c = Inr s0"
  shows "s0 = \<lparr>this = \<lparr>priorityJobQueue = [],
                        normalJobQueue = [],
                        queueChannel = \<lparr>buf = [], cap = 0, closed = False\<rparr>,
                        dequeueChannel = \<lparr>buf = [], cap = 0, closed = False\<rparr>,
                        shutdownQueueChannel = \<lparr>buf = [], cap = 0, closed = False\<rparr>,
                        jobChannel = \<lparr>buf = [], cap = nat (sint c), closed = False\<rparr>,
                        shutdownJobChannel = \<lparr>buf = [], cap = 0, closed = False\<rparr>,
                        shutdownWaitGroup = 1,
                        queuedJobs = 0,
                        activeRoutines = 0,
                        queueCapacity = c\<rparr>,
               queueRoutine_at = Selecting,
               jobRoutine_at = [Waiting],
               trace = []\<rparr>"
  using assms by (auto simp: New_def make_chan_def make_unbuffered_def split: if_splits)

lemma capacity_at_least_3:
  fixes c :: int32
  assumes "3 \<le> sint c"
  shows "c \<noteq> 0" "c \<noteq> 1" "c \<noteq> 2" "0 \<noteq> c" "1 \<noteq> c" "2 \<noteq> c"
    "0 < nat (sint c)" "Suc 0 < nat (sint c)" "2 < nat (sint c)"
  using assms by auto

lemma drain_three:
  assumes "New 1 c = Inr s0" and "3 \<le> sint c"
  shows "map_option executed
           (exec [Submit g J1 False r1, Submit g J2 True r2, Submit g J3 False r3,
                  TakeWake 0 q1, Serve 0, JobEnds 0 (Ok ()),
                  TakeWake 0 q2, Serve 0, JobEnds 0 (Ok ()),
                  TakeWake 0 q3, Serve 0, JobEnds 0 (Ok ())] s0) =
         Some [(J2, 0), (J1, 0), (J3, 0)]"
  unfolding New_one [OF assms(1)]
  using capacity_at_least_3 [OF assms(2)]
  by (simp add: step_Submit_def step_TakeWake_def step_Serve_def step_JobEnds_def routine_def
      set_routine_def not_returned_def executed_def go_defs Let_def)


lemma fresh_J1_J2:
  "submitted ''J2'' True 101 (submitted ''J1'' False 100 fresh_pool) =
     fresh_pool\<lparr>this := (this fresh_pool)\<lparr>
         priorityJobQueue := [\<lparr>Jobber = ''J2'', Priority = True, ResultChannel = 101\<rparr>],
         normalJobQueue := [\<lparr>Jobber = ''J1'', Priority = False, ResultChannel = 100\<rparr>],
         queuedJobs := 2,
         jobChannel := \<lparr>buf = [''Wake Up'', ''Wake Up''], cap = 10, closed = False\<rparr>\<rparr>,
       trace := [PushBackNormal \<lparr>Jobber = ''J1'', Priority = False, ResultChannel = 100\<rparr>,
                 AddQueuedJobs 1, SendError 100 None, SendWake ''Wake Up'',
                 PushBackPriority \<lparr>Jobber = ''J2'', Priority = True, ResultChannel = 101\<rparr>,
                 AddQueuedJobs 1, SendError 101 None, SendWake ''Wake Up'']\<rparr>"
  unfolding fresh_J1 by (simp add: submitted_def fresh_pool_def go_defs Let_def)

text \<open>
  C2. A dequeue removes the front of the priority queue when that queue is not empty,
  and otherwise the front of the normal queue, sends the removed job on the request's
  result channel and takes one from \<^verbatim>\<open>queuedJobs\<close>. On a pool with one job routine and
  room for three jobs, once \<^verbatim>\<open>J1\<close> (normal), \<^verbatim>\<open>J2\<close> (priority) and \<^verbatim>\<open>J3\<close> (normal) are
  queued in that order, the job routine runs \<^verbatim>\<open>J2\<close>, then \<^verbatim>\<open>J1\<close>, then \<^verbatim>\<open>J3\<close>.
\<close>

theorem priority_before_normal:
  "(priorityJobQueue (this s) = j # js \<longrightarrow>
      queueRoutineDequeue d s =
        (Ok (),
         s\<lparr>this := (this s)\<lparr>priorityJobQueue := js, queuedJobs := queuedJobs (this s) - 1\<rparr>,
           trace := trace s @
             [RemovePriority, AddQueuedJobs (- 1), SendJob (ResultChannel_dq d) j]\<rparr>))
   \<and> (priorityJobQueue (this s) = [] \<and> normalJobQueue (this s) = j # js \<longrightarrow>
      queueRoutineDequeue d s =
        (Ok (),
         s\<lparr>this := (this s)\<lparr>normalJobQueue := js, queuedJobs := queuedJobs (this s) - 1\<rparr>,
           trace := trace s @
             [RemoveNormal, AddQueuedJobs (- 1), SendJob (ResultChannel_dq d) j]\<rparr>))
   \<and> (queue_inv (this s)
        \<and> (priorityJobQueue (this s) \<noteq> [] \<or> normalJobQueue (this s) \<noteq> []) \<longrightarrow>
      sint (QueuedJobs (snd (queueRoutineDequeue d s))) = sint (QueuedJobs s) - 1)
   \<and> (New 1 c = Inr s0 \<and> 3 \<le> sint c \<longrightarrow>
      map_option executed
        (exec [Submit g J1 False r1, Submit g J2 True r2, Submit g J3 False r3,
               TakeWake 0 q1, Serve 0, JobEnds 0 (Ok ()),
               TakeWake 0 q2, Serve 0, JobEnds 0 (Ok ()),
               TakeWake 0 q3, Serve 0, JobEnds 0 (Ok ())] s0) =
      Some [(J2, 0), (J1, 0), (J3, 0)])"
proof -
  have c: "sint (QueuedJobs (snd (queueRoutineDequeue d s))) = sint (QueuedJobs s) - 1"
    if inv: "queue_inv (this s)"
      and ne: "priorityJobQueue (this s) \<noteq> [] \<or> normalJobQueue (this s) \<noteq> []"
  proof -
    have "0 < length (priorityJobQueue (this s)) + length (normalJobQueue (this s))"
      using ne by auto
    then have pos: "0 < sint (queuedJobs (this s))"
      using inv unfolding queue_inv_def by linarith
    have q: "queuedJobs (this (snd (queueRoutineDequeue d s))) = queuedJobs (this s) - 1"
    proof (cases "priorityJobQueue (this s)")
      case (Cons x xs)
      then show ?thesis by (simp add: dequeue_priority)
    next
      case Nil
      then obtain x xs where "normalJobQueue (this s) = x # xs"
        using ne by (cases "normalJobQueue (this s)") auto
      then show ?thesis using Nil by (simp add: dequeue_normal)
    qed
    show ?thesis using sint_pred_pos [OF pos] q by (simp add: QueuedJobs_def)
  qed
  show ?thesis
    using dequeue_priority [of s j js d] dequeue_normal [of s j js d] c
      drain_three [of c s0 g J1 r1 J2 r2 J3 r3 q1 q2 q3]
    by blast
qed

theorem priority_before_normal_witness:
  "priorityJobQueue (this (submitted ''J2'' True 101 (submitted ''J1'' False 100 fresh_pool))) =
     [\<lparr>Jobber = ''J2'', Priority = True, ResultChannel = 101\<rparr>]
   \<and> fst (queueRoutineDequeue \<lparr>ResultChannel_dq = 200\<rparr>
          (submitted ''J2'' True 101 (submitted ''J1'' False 100 fresh_pool))) = Ok ()
   \<and> last (trace (snd (queueRoutineDequeue \<lparr>ResultChannel_dq = 200\<rparr>
          (submitted ''J2'' True 101 (submitted ''J1'' False 100 fresh_pool))))) =
       SendJob 200 \<lparr>Jobber = ''J2'', Priority = True, ResultChannel = 101\<rparr>
   \<and> priorityJobQueue (this (submitted ''J1'' False 100 fresh_pool)) = []
   \<and> normalJobQueue (this (submitted ''J1'' False 100 fresh_pool)) =
       [\<lparr>Jobber = ''J1'', Priority = False, ResultChannel = 100\<rparr>]
   \<and> last (trace (snd (queueRoutineDequeue \<lparr>ResultChannel_dq = 200\<rparr>
          (submitted ''J1'' False 100 fresh_pool)))) =
       SendJob 200 \<lparr>Jobber = ''J1'', Priority = False, ResultChannel = 100\<rparr>
   \<and> queue_inv (this (submitted ''J1'' False 100 fresh_pool))
   \<and> sint (QueuedJobs (snd (queueRoutineDequeue \<lparr>ResultChannel_dq = 200\<rparr>
          (submitted ''J1'' False 100 fresh_pool)))) = 0
   \<and> New 1 10 = Inr fresh_pool
   \<and> 3 \<le> sint (10 :: int32)
   \<and> map_option executed
        (exec [Submit ''main'' ''J1'' False 100, Submit ''main'' ''J2'' True 101,
               Submit ''main'' ''J3'' False 102,
               TakeWake 0 200, Serve 0, JobEnds 0 (Ok ()),
               TakeWake 0 201, Serve 0, JobEnds 0 (Ok ()),
               TakeWake 0 202, Serve 0, JobEnds 0 (Ok ())] fresh_pool) =
      Some [(''J2'', 0), (''J1'', 0), (''J3'', 0)]"
proof -
  define a where "a = submitted ''J1'' False 100 fresh_pool"
  define b where "b = submitted ''J2'' True 101 (submitted ''J1'' False 100 fresh_pool)"
  have a: "priorityJobQueue (this a) = []"
    "normalJobQueue (this a) = [\<lparr>Jobber = ''J1'', Priority = False, ResultChannel = 100\<rparr>]"
    "queue_inv (this a)" "sint (QueuedJobs a) = 1"
    unfolding a_def fresh_J1 by (simp_all add: fresh_pool_def queue_inv_def QueuedJobs_def)
  have b: "priorityJobQueue (this b) = [\<lparr>Jobber = ''J2'', Priority = True, ResultChannel = 101\<rparr>]"
    unfolding b_def fresh_J1_J2 by (simp add: fresh_pool_def)
  note ta = priority_before_normal [where s = a and d = "\<lparr>ResultChannel_dq = 200\<rparr>"
      and j = "\<lparr>Jobber = ''J1'', Priority = False, ResultChannel = 100\<rparr>" and js = "[]"
      and c = 10 and ?s0.0 = fresh_pool and g = "''main''" and ?J1.0 = "''J1''" and ?J2.0 = "''J2''"
      and ?J3.0 = "''J3''" and ?r1.0 = 100 and ?r2.0 = 101 and ?r3.0 = 102
      and ?q1.0 = 200 and ?q2.0 = 201 and ?q3.0 = 202]
  note tb = priority_before_normal [where s = b and d = "\<lparr>ResultChannel_dq = 200\<rparr>"
      and j = "\<lparr>Jobber = ''J2'', Priority = True, ResultChannel = 101\<rparr>" and js = "[]"]
  have 1: "fst (queueRoutineDequeue \<lparr>ResultChannel_dq = 200\<rparr> b) = Ok ()"
    "last (trace (snd (queueRoutineDequeue \<lparr>ResultChannel_dq = 200\<rparr> b))) =
       SendJob 200 \<lparr>Jobber = ''J2'', Priority = True, ResultChannel = 101\<rparr>"
    using conjunct1 [OF tb] b by simp_all
  have 2: "last (trace (snd (queueRoutineDequeue \<lparr>ResultChannel_dq = 200\<rparr> a))) =
       SendJob 200 \<lparr>Jobber = ''J1'', Priority = False, ResultChannel = 100\<rparr>"
    using conjunct1 [OF conjunct2 [OF ta]] a by simp
  have 3: "sint (QueuedJobs (snd (queueRoutineDequeue \<lparr>ResultChannel_dq = 200\<rparr> a))) = 0"
    using conjunct1 [OF conjunct2 [OF conjunct2 [OF ta]]] a by simp
  have 4: "map_option executed
        (exec [Submit ''main'' ''J1'' False 100, Submit ''main'' ''J2'' True 101,
               Submit ''main'' ''J3'' False 102,
               TakeWake 0 200, Serve 0, JobEnds 0 (Ok ()),
               TakeWake 0 201, Serve 0, JobEnds 0 (Ok ()),
               TakeWake 0 202, Serve 0, JobEnds 0 (Ok ())] fresh_pool) =
      Some [(''J2'', 0), (''J1'', 0), (''J3'', 0)]"
    using conjunct2 [OF conjunct2 [OF conjunct2 [OF ta]]] New_fresh by simp
  show ?thesis
    using a(1-3) b 1 2 3 4 New_fresh unfolding a_def b_def by simp
qed

lemma queue_inv_enqueue:
  assumes "queue_inv (this s)"
  shows "queue_inv (this (snd (queueRoutineEnqueue job s)))"
proof (cases "queuedJobs (this s) = queueCapacity (this s)")
  case True
  then show ?thesis using assms by (simp add: enqueue_at_capacity)
next
  case False
  have s1: "sint (queuedJobs (this s) + 1) = sint (queuedJobs (this s)) + 1"
    using assms False by (intro sint_succ_below) (auto simp: queue_inv_def)
  have lt: "sint (queuedJobs (this s)) < sint (queueCapacity (this s))"
    using assms sint_neq [OF False] by (simp add: queue_inv_def)
  have "this (snd (queueRoutineEnqueue job s)) =
      (this s)\<lparr>priorityJobQueue :=
                   (if Priority job then priorityJobQueue (this s) @ [job]
                    else priorityJobQueue (this s)),
                 normalJobQueue :=
                   (if Priority job then normalJobQueue (this s)
                    else normalJobQueue (this s) @ [job]),
                 queuedJobs := queuedJobs (this s) + 1\<rparr>
    \<or> this (snd (queueRoutineEnqueue job s)) =
      (this s)\<lparr>priorityJobQueue :=
                   (if Priority job then priorityJobQueue (this s) @ [job]
                    else priorityJobQueue (this s)),
                 normalJobQueue :=
                   (if Priority job then normalJobQueue (this s)
                    else normalJobQueue (this s) @ [job]),
                 queuedJobs := queuedJobs (this s) + 1,
                 jobChannel := (jobChannel (this s))\<lparr>buf := buf (jobChannel (this s)) @ [''Wake Up'']\<rparr>\<rparr>"
    using False
    by (simp add: queueRoutineEnqueue_def queueRoutineEnqueue_body_def defer_catchPanic_nil_def
        send_error_def catchPanic_def pushBack_priority_def pushBack_normal_def
        add_queuedJobs_def send_jobChannel_def list_PushBack_def emit_def Let_def)
  then show ?thesis using assms lt s1 by (auto simp: queue_inv_def)
qed

lemma queue_inv_dequeue:
  assumes "queue_inv (this s)"
  shows "queue_inv (this (snd (queueRoutineDequeue d s)))"
proof (cases "priorityJobQueue (this s)")
  case (Cons j js)
  then have "0 < sint (queuedJobs (this s))" using assms by (simp add: queue_inv_def)
  then show ?thesis using assms Cons sint_pred_pos [of "queuedJobs (this s)"]
    by (simp add: dequeue_priority queue_inv_def)
next
  case Nil
  show ?thesis
  proof (cases "normalJobQueue (this s)")
    case Nil': Nil
    show ?thesis using assms by (simp add: dequeue_empty [OF Nil Nil'])
  next
    case (Cons j js)
    then have "0 < sint (queuedJobs (this s))" using assms by (simp add: queue_inv_def)
    then show ?thesis using assms Nil Cons sint_pred_pos [of "queuedJobs (this s)"]
      by (simp add: dequeue_normal queue_inv_def)
  qed
qed

lemma QueueJob_counts:
  assumes "pool_inv s" and "queueRoutine_at s = Selecting"
    and "\<not> closed (queueChannel (this s))"
  shows "pool_inv (snd (QueueJob g jober priority rc s))
       \<and> queueRoutine_at (snd (QueueJob g jober priority rc s)) = Selecting
       \<and> \<not> closed (queueChannel (this (snd (QueueJob g jober priority rc s))))
       \<and> sint (queuedJobs (this (snd (QueueJob g jober priority rc s)))) =
           sint (queuedJobs (this s)) +
           (if fst (QueueJob g jober priority rc s) = Ok None then 1 else 0)"
proof (cases "queuedJobs (this s) = queueCapacity (this s)")
  case True
  show ?thesis using assms by (simp add: QueueJob_at_capacity [OF assms(3,2) True])
next
  case False
  note room = pool_inv_room [OF assms(1,2) False]
  have s1: "sint (queuedJobs (this s) + 1) = sint (queuedJobs (this s)) + 1"
    using assms(1) False by (intro sint_succ_below) (auto simp: pool_inv_def queue_inv_def)
  have e: "snd (QueueJob g jober priority rc s) =
      snd (queueRoutineEnqueue \<lparr>Jobber = jober, Priority = priority, ResultChannel = rc\<rparr> s)"
    "fst (QueueJob g jober priority rc s) = Ok None"
    by (simp_all add: QueueJob_below_capacity [OF assms(3,2) False room])
  have f: "queueChannel (this (snd (queueRoutineEnqueue
        \<lparr>Jobber = jober, Priority = priority, ResultChannel = rc\<rparr> s))) = queueChannel (this s)"
    "queuedJobs (this (snd (queueRoutineEnqueue
        \<lparr>Jobber = jober, Priority = priority, ResultChannel = rc\<rparr> s))) = queuedJobs (this s) + 1"
    by (simp_all add: enqueue_below_capacity [OF False room])
  show ?thesis
    unfolding e f
    using pool_inv_enqueue(1,3) [OF assms(1,2)] assms(3) s1
    by simp
qed

lemma QueueJobs_counts:
  assumes "pool_inv s" and "queueRoutine_at s = Selecting"
    and "\<not> closed (queueChannel (this s))"
    and "QueueJobs js s = (rs, s')"
  shows "sint (queuedJobs (this s')) =
           sint (queuedJobs (this s)) + int (length (filter (\<lambda>r. r = Ok None) rs))"
  using assms
proof (induction js arbitrary: s rs)
  case Nil
  then show ?case by simp
next
  case (Cons x js)
  obtain g jober priority rc where x: "x = (g, jober, priority, rc)" by (cases x)
  obtain r s1 where q: "QueueJob g jober priority rc s = (r, s1)"
    by (cases "QueueJob g jober priority rc s")
  obtain rs1 where rest: "QueueJobs js s1 = (rs1, s')" and rs: "rs = r # rs1"
    using Cons.prems(4) x q by (auto split: prod.splits)
  note c = QueueJob_counts [OF Cons.prems(1-3), of g jober priority rc]
  have inv1: "pool_inv s1" "queueRoutine_at s1 = Selecting" "\<not> closed (queueChannel (this s1))"
    using c q by simp_all
  have q1: "sint (queuedJobs (this s1)) = sint (queuedJobs (this s)) + (if r = Ok None then 1 else 0)"
    using c q by simp
  show ?case
    using Cons.IH [OF inv1 rest] q1 rs by simp
qed

text \<open>
  C3. The handlers of the queue routine keep the invariant: between two of them the
  lengths of the two queues add up to \<^verbatim>\<open>queuedJobs\<close>, which lies between 0 and
  \<^verbatim>\<open>queueCapacity\<close>. It holds of the pool \<^verbatim>\<open>New\<close> returns and of every state that pool
  reaches. After calls of \<^verbatim>\<open>QueueJob\<close> on a new pool and before any dequeue,
  \<^verbatim>\<open>QueuedJobs()\<close> is the number of calls that returned \<^verbatim>\<open>nil\<close>.
\<close>

theorem queue_invariant_kept:
  "(queue_inv (this s) \<longrightarrow>
      queue_inv (this (snd (queueRoutineEnqueue job s)))
      \<and> queue_inv (this (snd (queueRoutineDequeue d s))))
   \<and> (New n c = Inr s0 \<longrightarrow> queue_inv (this s0))
   \<and> (New n c = Inr s0 \<and> exec ls s0 = Some s1 \<longrightarrow> queue_inv (this s1))
   \<and> (New n c = Inr s0 \<and> QueueJobs js s0 = (rs, s2) \<longrightarrow>
        sint (QueuedJobs s2) = int (length (filter (\<lambda>r. r = Ok None) rs)))"
proof -
  have a: "queue_inv (this s0)" if "New n c = Inr s0"
    using New_inv(1) [OF that] by (simp add: pool_inv_def)
  have b: "queue_inv (this s1)" if "New n c = Inr s0" "exec ls s0 = Some s1"
    using pool_inv_exec [OF New_inv(1) [OF that(1)] that(2)] by (simp add: pool_inv_def)
  have c: "sint (QueuedJobs s2) = int (length (filter (\<lambda>r. r = Ok None) rs))"
    if n: "New n c = Inr s0" and q: "QueueJobs js s0 = (rs, s2)"
    using QueueJobs_counts [OF New_inv(1) [OF n] New_inv(4) [OF n] New_inv(9) [OF n] q]
      New_inv(6) [OF n]
    by (simp add: QueuedJobs_def)
  show ?thesis
    using queue_inv_enqueue [of s job] queue_inv_dequeue [of s d] a b c by blast
qed

theorem queue_invariant_kept_witness:
  "queue_inv (this (submitted ''A'' False 100 small_pool))
   \<and> queue_inv (this (snd (queueRoutineEnqueue
        \<lparr>Jobber = ''B'', Priority = False, ResultChannel = 101\<rparr>
        (submitted ''A'' False 100 small_pool))))
   \<and> queue_inv (this (snd (queueRoutineDequeue \<lparr>ResultChannel_dq = 200\<rparr>
        (submitted ''A'' False 100 small_pool))))
   \<and> New 2 1 = Inr small_pool
   \<and> queue_inv (this small_pool)
   \<and> exec [Submit ''main'' ''A'' False 100] small_pool = Some (submitted ''A'' False 100 small_pool)
   \<and> QueueJobs [(''main'', ''A'', False, 100), (''main'', ''B'', False, 101)] small_pool =
       ([Ok None, Ok (Some (Errorf ''Job Pool At Capacity''))],
        snd (QueueJob ''main'' ''B'' False 101 (submitted ''A'' False 100 small_pool)))
   \<and> sint (QueuedJobs (snd (QueueJob ''main'' ''B'' False 101
        (submitted ''A'' False 100 small_pool)))) = 1"
proof -
  define a where "a = submitted ''A'' False 100 small_pool"
  define b where "b = snd (QueueJob ''main'' ''B'' False 101 (submitted ''A'' False 100 small_pool))"
  have x: "exec [Submit ''main'' ''A'' False 100] small_pool = Some a"
    unfolding a_def by (simp add: step_Submit_def submitted_def small_pool_def go_defs Let_def)
  have q: "QueueJobs [(''main'', ''A'', False, 100), (''main'', ''B'', False, 101)] small_pool =
       ([Ok None, Ok (Some (Errorf ''Job Pool At Capacity''))], b)"
    unfolding b_def by (simp add: submitted_def small_pool_def go_defs Let_def)
  note t = queue_invariant_kept [where s = a and n = 2 and c = 1 and ?s0.0 = small_pool
      and ls = "[Submit ''main'' ''A'' False 100]" and ?s1.0 = a
      and js = "[(''main'', ''A'', False, 100), (''main'', ''B'', False, 101)]"
      and rs = "[Ok None, Ok (Some (Errorf ''Job Pool At Capacity''))]" and ?s2.0 = b
      and job = "\<lparr>Jobber = ''B'', Priority = False, ResultChannel = 101\<rparr>"
      and d = "\<lparr>ResultChannel_dq = 200\<rparr>"]
  have 1: "queue_inv (this small_pool)" using conjunct1 [OF conjunct2 [OF t]] New_small by simp
  have 2: "queue_inv (this a)"
    using conjunct1 [OF conjunct2 [OF conjunct2 [OF t]]] New_small x by simp
  have 3: "queue_inv (this (snd (queueRoutineEnqueue
        \<lparr>Jobber = ''B'', Priority = False, ResultChannel = 101\<rparr> a)))"
    "queue_inv (this (snd (queueRoutineDequeue \<lparr>ResultChannel_dq = 200\<rparr> a)))"
    using conjunct1 [OF t] 2 by simp_all
  have 4: "sint (QueuedJobs b) = 1"
    using conjunct2 [OF conjunct2 [OF conjunct2 [OF t]]] New_small q by simp
  show ?thesis
    using 1 2 3 4 x q New_small unfolding a_def b_def by simp
qed

end
